theory Spec2Isabelle
  imports Complex_Main "HOL-Library.Multiset" "HOL-Library.Char_ord" "HOL-Library.List_Lexorder"
    "HOL-Library.Product_Lexorder"
begin

section \<open>Hyperparameter search: strategies, executors, substitution\<close>

text \<open>
  A shallow embedding of \<^verbatim>\<open>ludwig/utils/hyperopt_utils.py\<close>.  Python exceptions are values
  of the type \<open>error\<close>; a function that may raise returns \<open>error + 'a\<close> with \<open>Inl\<close> for
  the exception.  Python dictionaries are association lists in insertion order with
  distinct keys; objects that the source mutates in place are passed in and returned.
  Python floats are idealised as exact reals.
\<close>

datatype error =
    IndexError
  | KeyError
  | TypeError
  | AttributeError
  | ValueError
  | ZeroDivisionError
  | UnboundLocalError
  | FileNotFoundError
  | CalledProcessError
  | UnicodeDecodeError
  | RuntimeError

text \<open>
  A metric score is a Python float: a number, an infinity, or NaN.  \<open>float_lt\<close> and
  \<open>float_le\<close> are the comparisons \<^verbatim>\<open><\<close> and \<^verbatim>\<open><=\<close> of floats: every comparison with NaN is
  false.
\<close>

datatype pyfloat = NaN | NegInf | Num real | PosInf

fun float_lt :: "pyfloat \<Rightarrow> pyfloat \<Rightarrow> bool" where
  "float_lt NaN b = False"
| "float_lt a NaN = False"
| "float_lt a NegInf = False"
| "float_lt NegInf b = True"
| "float_lt PosInf b = False"
| "float_lt (Num x) PosInf = True"
| "float_lt (Num x) (Num y) = (x < y)"

fun float_le :: "pyfloat \<Rightarrow> pyfloat \<Rightarrow> bool" where
  "float_le NaN b = False"
| "float_le a NaN = False"
| "float_le NegInf b = True"
| "float_le a PosInf = True"
| "float_le a NegInf = False"
| "float_le PosInf b = False"
| "float_le (Num x) (Num y) = (x \<le> y)"

subsection \<open>Search strategies\<close>

text \<open>
  \<open>goal\<close> is one of the two constants \<^verbatim>\<open>MINIMIZE\<close>, \<^verbatim>\<open>MAXIMIZE\<close> (the constructor asserts
  it).  A sampled configuration (\<^verbatim>\<open>Dict[str, Any]\<close>) is an association list from dotted
  parameter names to values.
\<close>

datatype SearchGoal = MINIMIZE | MAXIMIZE

type_synonym 'v params = "(string \<times> 'v) list"

text \<open>
  The surrogate optimizer of \<^verbatim>\<open>PySOTStrategy\<close> is an external library object.  Its two
  methods are taken as parameters acting on an optimizer state \<open>'o\<close>:
  \<^verbatim>\<open>suggest(n_suggestions=1)[0]\<close> and \<^verbatim>\<open>observe([parameters], [metric_score])\<close>.
\<close>

record ('v, 'o) PySOTOptimizer =
  suggest :: "'o \<Rightarrow> 'v params \<times> 'o"
  observe :: "'o \<Rightarrow> 'v params \<Rightarrow> pyfloat \<Rightarrow> 'o"

text \<open>
  The three concrete strategies with the attributes their methods read:
  \<^item> \<open>RandomStrategy goal samples sampled_so_far\<close>: \<open>samples\<close> are drawn at construction;
  \<^item> \<open>GridStrategy goal search_space samples sampled_so_far\<close>;
  \<^item> \<open>PySOTStrategy goal pysot_optimizer sampled_so_far num_samples\<close>.
\<close>

datatype ('v, 'o) HyperoptStrategy =
    RandomStrategy SearchGoal "'v params list" nat
  | GridStrategy SearchGoal "(string \<times> 'v list) list" "'v params list" nat
  | PySOTStrategy SearchGoal 'o nat int

fun goal :: "('v, 'o) HyperoptStrategy \<Rightarrow> SearchGoal" where
  "goal (RandomStrategy g samples sampled_so_far) = g"
| "goal (GridStrategy g search_space samples sampled_so_far) = g"
| "goal (PySOTStrategy g opt sampled_so_far num_samples) = g"

fun sampled_so_far :: "('v, 'o) HyperoptStrategy \<Rightarrow> nat" where
  "sampled_so_far (RandomStrategy g samples n) = n"
| "sampled_so_far (GridStrategy g search_space samples n) = n"
| "sampled_so_far (PySOTStrategy g opt n num_samples) = n"

text \<open>\<^verbatim>\<open>sample\<close>: raises \<^verbatim>\<open>IndexError\<close> when exhausted, else returns the next configuration
  and increments \<^verbatim>\<open>sampled_so_far\<close>.\<close>

fun sample ::
  "('v, 'o) PySOTOptimizer \<Rightarrow> ('v, 'o) HyperoptStrategy
    \<Rightarrow> error + ('v params \<times> ('v, 'o) HyperoptStrategy)" where
  "sample lib (RandomStrategy g samples n) =
     (if n \<ge> length samples then Inl IndexError
      else Inr (samples ! n, RandomStrategy g samples (n + 1)))"
| "sample lib (GridStrategy g search_space samples n) =
     (if n \<ge> length samples then Inl IndexError
      else Inr (samples ! n, GridStrategy g search_space samples (n + 1)))"
| "sample lib (PySOTStrategy g opt n num_samples) =
     (if int n \<ge> num_samples then Inl IndexError
      else (case suggest lib opt of
              (x, opt') \<Rightarrow> Inr (x, PySOTStrategy g opt' (n + 1) num_samples)))"

fun finished :: "('v, 'o) HyperoptStrategy \<Rightarrow> bool" where
  "finished (RandomStrategy g samples n) = (n \<ge> length samples)"
| "finished (GridStrategy g search_space samples n) = (n \<ge> length samples)"
| "finished (PySOTStrategy g opt n num_samples) = (int n \<ge> num_samples)"

text \<open>\<^verbatim>\<open>update\<close> is \<^verbatim>\<open>pass\<close> for the random and the grid strategy and \<^verbatim>\<open>observe\<close> for
  the surrogate strategy; \<^verbatim>\<open>update_batch\<close> applies it to each pair in order.\<close>

fun update ::
  "('v, 'o) PySOTOptimizer \<Rightarrow> ('v, 'o) HyperoptStrategy \<Rightarrow> 'v params \<Rightarrow> pyfloat
    \<Rightarrow> ('v, 'o) HyperoptStrategy" where
  "update lib (RandomStrategy g samples n) sampled_parameters metric_score =
     RandomStrategy g samples n"
| "update lib (GridStrategy g search_space samples n) sampled_parameters statistics =
     GridStrategy g search_space samples n"
| "update lib (PySOTStrategy g opt n num_samples) sampled_parameters metric_score =
     PySOTStrategy g (observe lib opt sampled_parameters metric_score) n num_samples"

fun update_batch ::
  "('v, 'o) PySOTOptimizer \<Rightarrow> ('v, 'o) HyperoptStrategy \<Rightarrow> ('v params \<times> pyfloat) list
    \<Rightarrow> ('v, 'o) HyperoptStrategy" where
  "update_batch lib s [] = s"
| "update_batch lib s ((sampled_parameters, metric_score) # rest) =
     update_batch lib (update lib s sampled_parameters metric_score) rest"

text \<open>
  \<^verbatim>\<open>sample_batch\<close>: the loop \<^verbatim>\<open>for _ in range(batch_size)\<close> with the list \<open>samples\<close>
  collected so far.  An \<^verbatim>\<open>IndexError\<close> of \<^verbatim>\<open>sample\<close> is re-raised when \<open>samples\<close> is still
  empty and swallowed otherwise; the loop has no \<^verbatim>\<open>break\<close>, so after a swallowed error it
  goes on calling \<^verbatim>\<open>sample\<close> for the remaining iterations.  Other exceptions propagate.
  \<^verbatim>\<open>range\<close> of a non-positive number is empty, so \<open>batch_size\<close> is a natural number.
\<close>

fun sample_batch_loop ::
  "('v, 'o) PySOTOptimizer \<Rightarrow> nat \<Rightarrow> 'v params list \<Rightarrow> ('v, 'o) HyperoptStrategy
    \<Rightarrow> error + ('v params list \<times> ('v, 'o) HyperoptStrategy)" where
  "sample_batch_loop lib 0 samples s = Inr (samples, s)"
| "sample_batch_loop lib (Suc k) samples s =
     (case sample lib s of
        Inr (x, s') \<Rightarrow> sample_batch_loop lib k (samples @ [x]) s'
      | Inl IndexError \<Rightarrow>
          (if samples = [] then Inl IndexError else sample_batch_loop lib k samples s)
      | Inl e \<Rightarrow> Inl e)"

definition sample_batch ::
  "('v, 'o) PySOTOptimizer \<Rightarrow> nat \<Rightarrow> ('v, 'o) HyperoptStrategy
    \<Rightarrow> error + ('v params list \<times> ('v, 'o) HyperoptStrategy)" where
  "sample_batch lib batch_size s = sample_batch_loop lib batch_size [] s"

text \<open>
  The reference for "the samples produced so far": up to \<open>k\<close> successive results of
  \<^verbatim>\<open>sample\<close>, stopping at the first call that is exhausted.
\<close>

fun samples_until_exhaustion ::
  "('v, 'o) PySOTOptimizer \<Rightarrow> nat \<Rightarrow> ('v, 'o) HyperoptStrategy
    \<Rightarrow> 'v params list \<times> ('v, 'o) HyperoptStrategy" where
  "samples_until_exhaustion lib 0 s = ([], s)"
| "samples_until_exhaustion lib (Suc k) s =
     (case sample lib s of
        Inl e \<Rightarrow> ([], s)
      | Inr (x, s') \<Rightarrow>
          (case samples_until_exhaustion lib k s' of (xs, s'') \<Rightarrow> (x # xs, s'')))"

subsection \<open>Grid functions\<close>

text \<open>
  \<^verbatim>\<open>np.linspace(start, stop, num)\<close> of the numerical library, from its documentation:
  a negative \<open>num\<close> raises \<^verbatim>\<open>ValueError\<close>; otherwise \<open>num\<close> points
  \<open>start + i * step\<close> with \<open>step = (stop - start) / (num - 1)\<close>, the last one set to
  \<open>stop\<close> itself when \<open>num > 1\<close>.  With an integer \<^verbatim>\<open>dtype\<close> the points are converted to
  integers: rounded towards minus infinity by recent versions of the library and towards
  zero by older ones; the conversion is the parameter \<open>int_cast\<close>.
\<close>

definition linspace :: "real \<Rightarrow> real \<Rightarrow> int \<Rightarrow> error + real list" where
  "linspace start stop num =
     (if num < 0 then Inl ValueError
      else Inr (map (\<lambda>i. if 1 < num \<and> int i = num - 1 then stop
                           else if 0 < num - 1
                             then start + real i * ((stop - start) / real_of_int (num - 1))
                             else start + real i * (stop - start))
                    [0..<nat num]))"

datatype int_cast = Floor | Truncate

fun astype_int :: "int_cast \<Rightarrow> real \<Rightarrow> int" where
  "astype_int Floor y = \<lfloor>y\<rfloor>"
| "astype_int Truncate y = (if 0 \<le> y then \<lfloor>y\<rfloor> else \<lceil>y\<rceil>)"

text \<open>\<^verbatim>\<open>int_grid_function(range, steps=None)\<close>.\<close>

definition int_grid_function :: "int_cast \<Rightarrow> int \<times> int \<Rightarrow> int option \<Rightarrow> error + int list" where
  "int_grid_function cast range' steps =
     (let low = fst range';
          high = snd range';
          steps' = (case steps of None \<Rightarrow> high - low + 1 | Some k \<Rightarrow> k)
      in case linspace (of_int low) (of_int high) steps' of
           Inl e \<Rightarrow> Inl e
         | Inr samples \<Rightarrow> Inr (map (astype_int cast) samples))"

text \<open>\<^verbatim>\<open>category_grid_function(values)\<close>.\<close>

definition category_grid_function :: "'v list \<Rightarrow> 'v list" where
  "category_grid_function vals = vals"


subsection \<open>The grid strategy\<close>

text \<open>
  \<^verbatim>\<open>_create_search_space\<close>: for every declared parameter, in the order of the dictionary,
  the grid function of its type is looked up in the registry and called on the
  parameter's declaration.  Lookup and call are the parameter \<open>grid_function\<close>, which
  may raise (unknown type, unknown spacing, a negative number of steps).
\<close>

fun create_search_space ::
  "('hp \<Rightarrow> error + 'v list) \<Rightarrow> (string \<times> 'hp) list \<Rightarrow> error + (string \<times> 'v list) list" where
  "create_search_space grid_function [] = Inr []"
| "create_search_space grid_function ((hp_name, hp_params) # rest) =
     (case grid_function hp_params of
        Inl e \<Rightarrow> Inl e
      | Inr grid \<Rightarrow>
          (case create_search_space grid_function rest of
             Inl e \<Rightarrow> Inl e
           | Inr search_space \<Rightarrow> Inr ((hp_name, grid) # search_space)))"

text \<open>\<^verbatim>\<open>itertools.product(*lists)\<close>: the tuples in lexicographic order, the last list
  varying fastest.\<close>

fun itertools_product :: "'a list list \<Rightarrow> 'a list list" where
  "itertools_product [] = [[]]"
| "itertools_product (xs # xss) = concat (map (\<lambda>x. map ((#) x) (itertools_product xss)) xs)"

text \<open>
  \<^verbatim>\<open>_get_grids\<close>: \<^verbatim>\<open>sorted(self.search_space)\<close> are the parameter names in ascending
  order; \<^verbatim>\<open>self.search_space[hp_name]\<close> looks a name of the dictionary itself up, so the
  lookup cannot fail.
\<close>

definition search_space_lookup :: "(string \<times> 'v list) list \<Rightarrow> string \<Rightarrow> 'v list" where
  "search_space_lookup search_space hp_name =
     (case map_of search_space hp_name of Some grid \<Rightarrow> grid | None \<Rightarrow> [])"

definition get_grids :: "(string \<times> 'v list) list \<Rightarrow> 'v params list" where
  "get_grids search_space =
     (let hp_params = sort (map fst search_space)
      in map (\<lambda>prod. zip hp_params prod)
           (itertools_product (map (search_space_lookup search_space) hp_params)))"

definition GridStrategy_init ::
  "('hp \<Rightarrow> error + 'v list) \<Rightarrow> SearchGoal \<Rightarrow> (string \<times> 'hp) list
    \<Rightarrow> error + ('v, 'o) HyperoptStrategy" where
  "GridStrategy_init grid_function g parameters =
     (case create_search_space grid_function parameters of
        Inl e \<Rightarrow> Inl e
      | Inr search_space \<Rightarrow> Inr (GridStrategy g search_space (get_grids search_space) 0))"

subsection \<open>Trial results and their ranking\<close>

type_synonym eval_stats = "(string \<times> (string \<times> pyfloat) list) list"

text \<open>The dictionary of one trial, with the keys \<^verbatim>\<open>parameters\<close>, \<^verbatim>\<open>metric_score\<close>,
  \<^verbatim>\<open>training_stats\<close> and \<^verbatim>\<open>eval_stats\<close>.\<close>

record ('v, 'ts) TrialResult =
  trial_parameters :: "'v params"
  metric_score :: pyfloat
  training_stats :: 'ts
  trial_eval_stats :: eval_stats

text \<open>
  The builtin \<^verbatim>\<open>sorted(xs, key=key, reverse=reverse)\<close> sorts a copy of the list with
  \<^verbatim>\<open>list.sort\<close>, which only ever asks whether one key is less than another (\<open>lt\<close>).
  On a list shorter than 64 elements the algorithm is: find the run the list starts
  with (\<open>count_run\<close>: the longest non-descending prefix, or the longest strictly
  descending prefix, which is reversed), then insert every remaining element into the
  sorted run at the position found by binary search, to the right of the elements that
  are not greater (\<open>binarysort\<close>).  The functions below follow these steps.  Longer
  lists are cut into such runs, which the builtin then merges: the result is the same
  list whenever \<open>lt\<close> is a total order on the keys.
\<close>

fun ascending_run :: "('a \<Rightarrow> 'a \<Rightarrow> bool) \<Rightarrow> 'a \<Rightarrow> 'a list \<Rightarrow> nat" where
  "ascending_run lt prev [] = 0"
| "ascending_run lt prev (x # xs) = (if lt x prev then 0 else Suc (ascending_run lt x xs))"

fun descending_run :: "('a \<Rightarrow> 'a \<Rightarrow> bool) \<Rightarrow> 'a \<Rightarrow> 'a list \<Rightarrow> nat" where
  "descending_run lt prev [] = 0"
| "descending_run lt prev (x # xs) = (if lt x prev then Suc (descending_run lt x xs) else 0)"

text \<open>\<open>count_run\<close>: the length of the initial run and whether it is descending.\<close>

fun count_run :: "('a \<Rightarrow> 'a \<Rightarrow> bool) \<Rightarrow> 'a list \<Rightarrow> nat \<times> bool" where
  "count_run lt [] = (0, False)"
| "count_run lt [x] = (1, False)"
| "count_run lt (x # y # rest) =
     (if lt y x then (2 + descending_run lt y rest, True)
      else (2 + ascending_run lt y rest, False))"

text \<open>The binary search of \<open>binarysort\<close> between the positions \<open>l\<close> and \<open>r\<close> of the run.\<close>

function binary_position :: "('a \<Rightarrow> 'a \<Rightarrow> bool) \<Rightarrow> 'a \<Rightarrow> 'a list \<Rightarrow> nat \<Rightarrow> nat \<Rightarrow> nat" where
  "binary_position lt pivot run l r =
     (if l < r
      then (if lt pivot (run ! (l + (r - l) div 2))
            then binary_position lt pivot run l (l + (r - l) div 2)
            else binary_position lt pivot run (l + (r - l) div 2 + 1) r)
      else l)"
  by pat_completeness auto
termination
  by (relation "measure (\<lambda>(lt, pivot, run, l, r). r - l)") auto

declare binary_position.simps [simp del]

fun binarysort :: "('a \<Rightarrow> 'a \<Rightarrow> bool) \<Rightarrow> 'a list \<Rightarrow> 'a list \<Rightarrow> 'a list" where
  "binarysort lt run [] = run"
| "binarysort lt run (pivot # rest) =
     (let l = binary_position lt pivot run 0 (length run)
      in binarysort lt (take l run @ pivot # drop l run) rest)"

definition list_sort :: "('a \<Rightarrow> 'a \<Rightarrow> bool) \<Rightarrow> 'a list \<Rightarrow> 'a list" where
  "list_sort lt xs =
     (if length xs < 2 then xs
      else (case count_run lt xs of
              (n, descending) \<Rightarrow>
                binarysort lt (if descending then rev (take n xs) else take n xs) (drop n xs)))"

text \<open>The keys are compared, the elements move.  With \<^verbatim>\<open>reverse\<close> the list is reversed,
  sorted and reversed again.\<close>

definition sorted_builtin ::
  "('k \<Rightarrow> 'k \<Rightarrow> bool) \<Rightarrow> ('a \<Rightarrow> 'k) \<Rightarrow> bool \<Rightarrow> 'a list \<Rightarrow> 'a list" where
  "sorted_builtin lt key reverse xs =
     (if reverse then rev (list_sort (\<lambda>a b. lt (key a) (key b)) (rev xs))
      else list_sort (\<lambda>a b. lt (key a) (key b)) xs)"

definition sort_hyperopt_results ::
  "('v, 'o) HyperoptStrategy \<Rightarrow> ('v, 'ts) TrialResult list \<Rightarrow> ('v, 'ts) TrialResult list" where
  "sort_hyperopt_results hyperopt_strategy hyperopt_results =
     sorted_builtin float_lt metric_score (goal hyperopt_strategy = MAXIMIZE) hyperopt_results"

text \<open>The place of a float in the order of the floats that are not NaN.\<close>

fun float_rank :: "pyfloat \<Rightarrow> int \<times> real" where
  "float_rank NegInf = (- 1, 0)"
| "float_rank (Num x) = (0, x)"
| "float_rank PosInf = (1, 0)"
| "float_rank NaN = (2, 0)"

subsection \<open>Parameter substitution\<close>

text \<open>
  Model configurations and parameter values are nested Python data: \<^verbatim>\<open>None\<close>, booleans,
  integers, floats, strings, lists, and dictionaries with string keys.
\<close>

datatype jval =
    JNone
  | JBool bool
  | JInt int
  | JFloat real
  | JStr string
  | JList "jval list"
  | JDict "(string \<times> jval) list"

type_synonym dict = "(string \<times> jval) list"

text \<open>\<^verbatim>\<open>d[key] = value\<close> on a dictionary: an existing key keeps its position, a new key is
  appended.\<close>

fun dict_set :: "(string \<times> 'a) list \<Rightarrow> string \<Rightarrow> 'a \<Rightarrow> (string \<times> 'a) list" where
  "dict_set [] key v = [(key, v)]"
| "dict_set ((k, w) # rest) key v =
     (if k = key then (k, v) # rest else (k, w) # dict_set rest key v)"

text \<open>\<^verbatim>\<open>obj[key]\<close> and \<^verbatim>\<open>obj[key] = value\<close> for a string \<open>key\<close> on an arbitrary object:
  a missing key of a dictionary raises \<^verbatim>\<open>KeyError\<close>, an object that is not a dictionary
  raises \<^verbatim>\<open>TypeError\<close>.\<close>

fun get_item :: "jval \<Rightarrow> string \<Rightarrow> error + jval" where
  "get_item (JDict d) key = (case map_of d key of None \<Rightarrow> Inl KeyError | Some v \<Rightarrow> Inr v)"
| "get_item obj key = Inl TypeError"

fun set_item :: "jval \<Rightarrow> string \<Rightarrow> jval \<Rightarrow> error + jval" where
  "set_item (JDict d) key v = Inr (JDict (dict_set d key v))"
| "set_item obj key v = Inl TypeError"

text \<open>\<^verbatim>\<open>name.split(".")\<close>: the pieces between the separators; never the empty list.\<close>

fun split_on :: "char \<Rightarrow> string \<Rightarrow> string list" where
  "split_on sep [] = [[]]"
| "split_on sep (c # cs) =
     (if c = sep then [] # split_on sep cs
      else (case split_on sep cs of
              [] \<Rightarrow> [[c]]
            | w # ws \<Rightarrow> (c # w) # ws))"

text \<open>
  The inner loop of \<^verbatim>\<open>get_parameters_dict\<close> over \<^verbatim>\<open>name_list\<close>, starting at the dictionary
  \<open>curr_dict\<close>: the last element is assigned the value; every other element descends
  into \<^verbatim>\<open>curr_dict.get(name_elem, {})\<close>, stored back under the element.  The nested
  dictionary is the same object as the stored one, so the later assignments show in
  \<open>curr_dict\<close>.  Descending into a stored value that is not a dictionary fails at the next
  element: the assignment raises \<^verbatim>\<open>TypeError\<close>, the call of \<^verbatim>\<open>get\<close> raises
  \<^verbatim>\<open>AttributeError\<close>.
\<close>

fun set_path :: "string list \<Rightarrow> jval \<Rightarrow> dict \<Rightarrow> error + dict" where
  "set_path [] v curr_dict = Inr curr_dict"
| "set_path [name_elem] v curr_dict = Inr (dict_set curr_dict name_elem v)"
| "set_path (name_elem # next_elem # rest) v curr_dict =
     (case (case map_of curr_dict name_elem of None \<Rightarrow> JDict [] | Some d \<Rightarrow> d) of
        JDict name_dict \<Rightarrow>
          (case set_path (next_elem # rest) v name_dict of
             Inl e \<Rightarrow> Inl e
           | Inr name_dict' \<Rightarrow> Inr (dict_set curr_dict name_elem (JDict name_dict')))
      | other \<Rightarrow> (if rest = [] then Inl TypeError else Inl AttributeError))"

fun get_parameters_dict_loop :: "jval params \<Rightarrow> dict \<Rightarrow> error + dict" where
  "get_parameters_dict_loop [] parameters_dict = Inr parameters_dict"
| "get_parameters_dict_loop ((name, v) # rest) parameters_dict =
     (case set_path (split_on (CHR ''.'') name) v parameters_dict of
        Inl e \<Rightarrow> Inl e
      | Inr parameters_dict' \<Rightarrow> get_parameters_dict_loop rest parameters_dict')"

definition get_parameters_dict :: "jval params \<Rightarrow> error + dict" where
  "get_parameters_dict parameters = get_parameters_dict_loop parameters []"

text \<open>
  \<^verbatim>\<open>set_values(model_dict, name, parameters_dict)\<close>.  The loop over the sub-keys of a
  dictionary value does \<^verbatim>\<open>model_dict[key][sub_key] = sub_value\<close>; the loop over the keys
  does that, or \<^verbatim>\<open>model_dict[key] = value\<close> for a value that is not a dictionary.  The
  updated \<open>model_dict\<close> is returned.  A name that is unhashable (a list or a dictionary)
  makes the membership test raise \<^verbatim>\<open>TypeError\<close>; a name that is not a string is no key
  of the parameters; parameters that are not a dictionary have no \<^verbatim>\<open>items\<close>
  (\<^verbatim>\<open>AttributeError\<close>).
\<close>

fun set_sub_values :: "jval \<Rightarrow> string \<Rightarrow> dict \<Rightarrow> error + jval" where
  "set_sub_values model_dict key [] = Inr model_dict"
| "set_sub_values model_dict key ((sub_key, sub_value) # rest) =
     (case get_item model_dict key of
        Inl e \<Rightarrow> Inl e
      | Inr inner \<Rightarrow>
          (case set_item inner sub_key sub_value of
             Inl e \<Rightarrow> Inl e
           | Inr inner' \<Rightarrow>
               (case set_item model_dict key inner' of
                  Inl e \<Rightarrow> Inl e
                | Inr model_dict' \<Rightarrow> set_sub_values model_dict' key rest)))"

fun set_values_items :: "jval \<Rightarrow> dict \<Rightarrow> error + jval" where
  "set_values_items model_dict [] = Inr model_dict"
| "set_values_items model_dict ((key, v) # rest) =
     (case (case v of
              JDict sub \<Rightarrow> set_sub_values model_dict key sub
            | other \<Rightarrow> set_item model_dict key v) of
        Inl e \<Rightarrow> Inl e
      | Inr model_dict' \<Rightarrow> set_values_items model_dict' rest)"

fun set_values :: "jval \<Rightarrow> jval \<Rightarrow> dict \<Rightarrow> error + jval" where
  "set_values model_dict (JStr name) parameters_dict =
     (case map_of parameters_dict name of
        None \<Rightarrow> Inr model_dict
      | Some (JDict params) \<Rightarrow> set_values_items model_dict params
      | Some other \<Rightarrow> Inl AttributeError)"
| "set_values model_dict (JList xs) parameters_dict = Inl TypeError"
| "set_values model_dict (JDict d) parameters_dict = Inl TypeError"
| "set_values model_dict name parameters_dict = Inr model_dict"

text \<open>
  The two loops of \<^verbatim>\<open>substitute_parameters\<close> over the features.  Iterating a list gives
  its elements, a dictionary its keys, a string its characters; anything else is not
  iterable.  Each feature is updated in place, so a list of features is stored back
  with its updated elements.
\<close>

fun iter_items :: "jval \<Rightarrow> error + jval list" where
  "iter_items (JList xs) = Inr xs"
| "iter_items (JDict d) = Inr (map (\<lambda>kv. JStr (fst kv)) d)"
| "iter_items (JStr s) = Inr (map (\<lambda>c. JStr [c]) s)"
| "iter_items obj = Inl TypeError"

fun set_values_features :: "jval list \<Rightarrow> dict \<Rightarrow> error + jval list" where
  "set_values_features [] parameters_dict = Inr []"
| "set_values_features (feature # rest) parameters_dict =
     (case get_item feature ''name'' of
        Inl e \<Rightarrow> Inl e
      | Inr name \<Rightarrow>
          (case set_values feature name parameters_dict of
             Inl e \<Rightarrow> Inl e
           | Inr feature' \<Rightarrow>
               (case set_values_features rest parameters_dict of
                  Inl e \<Rightarrow> Inl e
                | Inr rest' \<Rightarrow> Inr (feature' # rest'))))"

definition substitute_features :: "jval \<Rightarrow> string \<Rightarrow> dict \<Rightarrow> error + jval" where
  "substitute_features model_definition section_key parameters_dict =
     (case get_item model_definition section_key of
        Inl e \<Rightarrow> Inl e
      | Inr features \<Rightarrow>
          (case iter_items features of
             Inl e \<Rightarrow> Inl e
           | Inr items \<Rightarrow>
               (case set_values_features items parameters_dict of
                  Inl e \<Rightarrow> Inl e
                | Inr items' \<Rightarrow>
                    (case features of
                       JList xs \<Rightarrow> set_item model_definition section_key (JList items')
                     | other \<Rightarrow> Inr model_definition))))"

definition substitute_section :: "jval \<Rightarrow> string \<Rightarrow> dict \<Rightarrow> error + jval" where
  "substitute_section model_definition section_key parameters_dict =
     (case get_item model_definition section_key of
        Inl e \<Rightarrow> Inl e
      | Inr model_dict \<Rightarrow>
          (case set_values model_dict (JStr section_key) parameters_dict of
             Inl e \<Rightarrow> Inl e
           | Inr model_dict' \<Rightarrow> set_item model_definition section_key model_dict'))"

definition substitute_parameters :: "jval \<Rightarrow> jval params \<Rightarrow> error + jval" where
  "substitute_parameters model_definition parameters =
     (case get_parameters_dict parameters of
        Inl e \<Rightarrow> Inl e
      | Inr parameters_dict \<Rightarrow>
     (case substitute_features model_definition ''input_features'' parameters_dict of
        Inl e \<Rightarrow> Inl e
      | Inr md1 \<Rightarrow>
     (case substitute_features md1 ''output_features'' parameters_dict of
        Inl e \<Rightarrow> Inl e
      | Inr md2 \<Rightarrow>
     (case substitute_section md2 ''combiner'' parameters_dict of
        Inl e \<Rightarrow> Inl e
      | Inr md3 \<Rightarrow>
     (case substitute_section md3 ''training'' parameters_dict of
        Inl e \<Rightarrow> Inl e
      | Inr md4 \<Rightarrow> substitute_section md4 ''preprocessing'' parameters_dict)))))"

subsection \<open>Free device memory\<close>

text \<open>
  \<^verbatim>\<open>get_available_gpu_memory\<close>.  The outcome of running the device-management command
  (\<^verbatim>\<open>sp.check_output\<close>) is the parameter \<open>check_output\<close>: its output bytes or the
  exception it raised.  \<^verbatim>\<open>int\<close> on a string is the parameter \<open>to_int\<close>.  The result is
  what the function prints (the exceptions handed to \<^verbatim>\<open>print\<close>) and what it returns or
  raises.
\<close>

definition is_space :: "char \<Rightarrow> bool" where
  "is_space c = (of_char c \<in> set [9, 10, 11, 12, 13, 28, 29, 30, 31, 32 :: nat])"

text \<open>\<^verbatim>\<open>x.split()\<close>: the maximal runs of characters that are not whitespace; \<open>cur\<close> is
  the run read so far.\<close>

fun split_whitespace :: "string \<Rightarrow> string \<Rightarrow> string list" where
  "split_whitespace cur [] = (if cur = [] then [] else [cur])"
| "split_whitespace cur (c # cs) =
     (if is_space c
      then (if cur = [] then split_whitespace [] cs else cur # split_whitespace [] cs)
      else split_whitespace (cur @ [c]) cs)"

text \<open>\<^verbatim>\<open>_output_to_list = lambda x: x.decode('ascii').split('\n')[:-1]\<close>.\<close>

definition output_to_list :: "string \<Rightarrow> error + string list" where
  "output_to_list x =
     (if list_all (\<lambda>c. of_char c < (128 :: nat)) x
      then Inr (butlast (split_on (char_of (10 :: nat)) x))
      else Inl UnicodeDecodeError)"

text \<open>\<^verbatim>\<open>[int(x.split()[0]) for i, x in enumerate(memory_free_info)]\<close>.\<close>

fun memory_free_values_of :: "(string \<Rightarrow> error + int) \<Rightarrow> string list \<Rightarrow> error + int list" where
  "memory_free_values_of to_int [] = Inr []"
| "memory_free_values_of to_int (x # rest) =
     (case split_whitespace [] x of
        [] \<Rightarrow> Inl IndexError
      | tok # toks \<Rightarrow>
          (case to_int tok of
             Inl e \<Rightarrow> Inl e
           | Inr v \<Rightarrow>
               (case memory_free_values_of to_int rest of
                  Inl e \<Rightarrow> Inl e
                | Inr vs \<Rightarrow> Inr (v # vs))))"

text \<open>
  The \<^verbatim>\<open>try\<close> block assigns \<^verbatim>\<open>memory_free_values\<close>; the handler \<^verbatim>\<open>except Exception\<close>
  prints the exception and falls through to \<^verbatim>\<open>return memory_free_values\<close>, a local
  variable that was never assigned on that path.
\<close>

definition get_available_gpu_memory ::
  "(string \<Rightarrow> error + int) \<Rightarrow> error + string \<Rightarrow> error list \<times> (error + int list)" where
  "get_available_gpu_memory to_int check_output =
     (case (case check_output of
              Inl e \<Rightarrow> Inl e
            | Inr out \<Rightarrow>
                (case output_to_list out of
                   Inl e \<Rightarrow> Inl e
                 | Inr lines \<Rightarrow> memory_free_values_of to_int (drop 1 lines))) of
        Inr memory_free_values \<Rightarrow> ([], Inr memory_free_values)
      | Inl e \<Rightarrow> ([e], Inl UnboundLocalError))"

subsection \<open>Device memory shared among workers\<close>








text \<open>A slot of the shared queue: a device identifier and a memory limit.  The queue is
  filled with \<open>process_per_gpu\<close> slots for every identifier of \<^verbatim>\<open>gpu_ids\<close>.\<close>

type_synonym GpuSlot = "string \<times> real option"

definition initial_queue ::
  "string list \<Rightarrow> (string \<times> real option \<times> int) list \<Rightarrow> GpuSlot list" where
  "initial_queue gpu_ids gpu_ids_meta =
     concat (map (\<lambda>gpu_id. case map_of gpu_ids_meta gpu_id of
                              None \<Rightarrow> []
                            | Some (gpu_memory_limit, process_per_gpu) \<Rightarrow>
                                replicate (nat process_per_gpu) (gpu_id, gpu_memory_limit))
                 gpu_ids)"

subsection \<open>Trials\<close>

text \<open>
  The keyword dictionary built for one trial.  Only the entries that differ between
  trials or that a worker overwrites are fields; the remaining entries (data
  references, names, flags) are the arguments of \<^verbatim>\<open>execute\<close> passed through unchanged.
\<close>

record hyperopt_dict =
  dict_parameters :: "jval params"
  dict_model_definition :: jval
  dict_gpus :: "string option"
  dict_gpu_memory_limit :: "real option"

text \<open>
  \<^verbatim>\<open>train_and_eval_on_split\<close> trains and evaluates a model: the external collaborator.
  It is a parameter \<open>train\<close> from the arguments that differ between trials (the
  model definition, \<^verbatim>\<open>gpus\<close> and \<^verbatim>\<open>gpu_memory_limit\<close>) to the pair of statistics, or the
  exception the trial raised.  The entry \<^verbatim>\<open>parameters\<close> of a keyword dictionary is no
  parameter of the function and is ignored by it.
\<close>

type_synonym 'ts train_fn =
  "jval \<Rightarrow> string option \<Rightarrow> real option \<Rightarrow> error + ('ts \<times> eval_stats)"

text \<open>\<^verbatim>\<open>get_metric_score\<close>: \<^verbatim>\<open>eval_stats[self.output_feature][self.metric]\<close>.\<close>

definition get_metric_score :: "string \<Rightarrow> string \<Rightarrow> eval_stats \<Rightarrow> error + pyfloat" where
  "get_metric_score output_feature metric stats =
     (case map_of stats output_feature of
        None \<Rightarrow> Inl KeyError
      | Some by_metric \<Rightarrow>
          (case map_of by_metric metric of None \<Rightarrow> Inl KeyError | Some score \<Rightarrow> Inr score))"

text \<open>The worker \<^verbatim>\<open>_train_and_eval_model\<close>.\<close>

definition train_and_eval_model ::
  "'ts train_fn \<Rightarrow> string \<Rightarrow> string \<Rightarrow> hyperopt_dict \<Rightarrow> error + (jval, 'ts) TrialResult" where
  "train_and_eval_model train output_feature metric kwargs =
     (case train (dict_model_definition kwargs) (dict_gpus kwargs)
             (dict_gpu_memory_limit kwargs) of
        Inl e \<Rightarrow> Inl e
      | Inr (train_stats, stats) \<Rightarrow>
          (case get_metric_score output_feature metric stats of
             Inl e \<Rightarrow> Inl e
           | Inr score \<Rightarrow>
               Inr \<lparr>trial_parameters = dict_parameters kwargs, metric_score = score,
                    training_stats = train_stats, trial_eval_stats = stats\<rparr>))"

subsection \<open>The worker that shares devices\<close>

text \<open>
  \<^verbatim>\<open>_train_and_eval_model_gpu\<close> runs in a worker process; the queue of slots is shared
  by the workers.  \<^verbatim>\<open>self.queue.get()\<close> blocks while the queue is empty and removes the
  first slot otherwise; \<^verbatim>\<open>self.queue.put\<close> appends.  The body of the \<^verbatim>\<open>try\<close> is
  \<open>gpu_trial\<close>; the \<^verbatim>\<open>finally\<close> clause puts the slot back whether the body returned or
  raised.
\<close>

definition gpu_trial ::
  "'ts train_fn \<Rightarrow> string \<Rightarrow> string \<Rightarrow> GpuSlot \<Rightarrow> hyperopt_dict \<Rightarrow> error + (jval, 'ts) TrialResult" where
  "gpu_trial train output_feature metric gpu_id_meta kwargs =
     train_and_eval_model train output_feature metric
       (kwargs\<lparr>dict_gpus := Some (fst gpu_id_meta), dict_gpu_memory_limit := snd gpu_id_meta\<rparr>)"

text \<open>
  A worker call is waiting for a slot, holds a slot while its trial runs, or has left
  the function (with a result or with the exception of the trial).
\<close>

datatype 'ts worker_call =
    Waiting hyperopt_dict
  | Holding GpuSlot hyperopt_dict
  | Exited "error + (jval, 'ts) TrialResult"

text \<open>One step of one worker call on the shared queue: \<^verbatim>\<open>get\<close> for a waiting call (no
  step while the queue is empty), the trial and the \<^verbatim>\<open>put\<close> for a call that holds a
  slot.\<close>

fun worker_step ::
  "'ts train_fn \<Rightarrow> string \<Rightarrow> string \<Rightarrow> GpuSlot list \<Rightarrow> 'ts worker_call
    \<Rightarrow> GpuSlot list \<times> 'ts worker_call" where
  "worker_step train output_feature metric [] (Waiting kwargs) = ([], Waiting kwargs)"
| "worker_step train output_feature metric (gpu_id_meta # queue) (Waiting kwargs) =
     (queue, Holding gpu_id_meta kwargs)"
| "worker_step train output_feature metric queue (Holding gpu_id_meta kwargs) =
     (queue @ [gpu_id_meta], Exited (gpu_trial train output_feature metric gpu_id_meta kwargs))"
| "worker_step train output_feature metric queue (Exited r) = (queue, Exited r)"

text \<open>
  The pool runs the calls concurrently.  An interleaving is a schedule: the list of
  the indices of the calls that take the next step, in order.
\<close>

definition pool_step ::
  "'ts train_fn \<Rightarrow> string \<Rightarrow> string \<Rightarrow> GpuSlot list \<times> 'ts worker_call list \<Rightarrow> nat
    \<Rightarrow> GpuSlot list \<times> 'ts worker_call list" where
  "pool_step train output_feature metric st i =
     (if i < length (snd st)
      then (case worker_step train output_feature metric (fst st) (snd st ! i) of
              (queue', call') \<Rightarrow> (queue', (snd st)[i := call']))
      else st)"

fun run_schedule ::
  "'ts train_fn \<Rightarrow> string \<Rightarrow> string \<Rightarrow> nat list \<Rightarrow> GpuSlot list \<times> 'ts worker_call list
    \<Rightarrow> GpuSlot list \<times> 'ts worker_call list" where
  "run_schedule train output_feature metric [] st = st"
| "run_schedule train output_feature metric (i # schedule) st =
     run_schedule train output_feature metric schedule
       (pool_step train output_feature metric st i)"

fun held_slots :: "'ts worker_call list \<Rightarrow> GpuSlot list" where
  "held_slots [] = []"
| "held_slots (Holding gpu_id_meta kwargs # calls) = gpu_id_meta # held_slots calls"
| "held_slots (c # calls) = held_slots calls"

fun has_exited :: "'ts worker_call \<Rightarrow> bool" where
  "has_exited (Exited r) = True"
| "has_exited c = False"

subsection \<open>Executors\<close>

text \<open>
  What a run of \<^verbatim>\<open>execute\<close> does, in order: the batches it samples, the trials it calls
  directly (serial executor), the lists it hands to a pool's \<^verbatim>\<open>map\<close> (the keyword
  dictionaries for the process pool, the substituted model definitions for the fiber
  pool), and the observations it hands to \<^verbatim>\<open>update_batch\<close>.
\<close>

datatype event =
    SampleBatch "jval params list"
  | TrainCall jval
  | PoolMap "hyperopt_dict list"
  | FiberMap "jval list"
  | UpdateBatch "(jval params \<times> pyfloat) list"

text \<open>The executor's attributes and the arguments of \<^verbatim>\<open>execute\<close> that the loops read.\<close>

record ('o, 'ts) run_context =
  ctx_optimizer :: "(jval, 'o) PySOTOptimizer"
  ctx_train :: "'ts train_fn"
  ctx_output_feature :: string
  ctx_metric :: string
  ctx_model_definition :: jval
  ctx_gpus :: "string option"
  ctx_gpu_memory_limit :: "real option"

text \<open>The number of samples a strategy can still produce: the loops below end because
  every iteration lowers it.\<close>

fun remaining :: "('v, 'o) HyperoptStrategy \<Rightarrow> nat" where
  "remaining (RandomStrategy g samples n) = length samples - n"
| "remaining (GridStrategy g search_space samples n) = length samples - n"
| "remaining (PySOTStrategy g opt n num_samples) = nat (num_samples - int n)"

lemma remaining_update: "remaining (update lib s p score) = remaining s"
  by (cases s) simp_all

lemma remaining_update_batch: "remaining (update_batch lib s ps) = remaining s"
  by (induction ps arbitrary: s) (auto simp: remaining_update)

lemma remaining_sample: "sample lib s = Inr (x, s') \<Longrightarrow> remaining s' < remaining s"
  by (cases s) (auto split: if_splits prod.splits)

lemma remaining_sample_batch_one:
  "sample_batch lib 1 s = Inr (sampled, s') \<Longrightarrow> remaining s' < remaining s"
  by (auto simp: sample_batch_def remaining_sample split: sum.splits error.splits)

text \<open>
  The inner loop of \<^verbatim>\<open>SerialExecutor.execute\<close> over the sampled batch: substitute the
  parameters into a copy of the model definition, train and evaluate, extract the
  metric score.  An exception ends the run.
\<close>

fun serial_trials ::
  "('o, 'ts) run_context \<Rightarrow> jval params list
    \<Rightarrow> event list \<times> (error + (jval, 'ts) TrialResult list)" where
  "serial_trials ctx [] = ([], Inr [])"
| "serial_trials ctx (parameters # rest) =
     (case substitute_parameters (ctx_model_definition ctx) parameters of
        Inl e \<Rightarrow> ([], Inl e)
      | Inr modified_model_definition \<Rightarrow>
          (case ctx_train ctx modified_model_definition (ctx_gpus ctx)
                  (ctx_gpu_memory_limit ctx) of
             Inl e \<Rightarrow> ([TrainCall modified_model_definition], Inl e)
           | Inr (train_stats, stats) \<Rightarrow>
               (case get_metric_score (ctx_output_feature ctx) (ctx_metric ctx) stats of
                  Inl e \<Rightarrow> ([TrainCall modified_model_definition], Inl e)
                | Inr score \<Rightarrow>
                    (case serial_trials ctx rest of
                       (evs, Inl e) \<Rightarrow> (TrainCall modified_model_definition # evs, Inl e)
                     | (evs, Inr rs) \<Rightarrow>
                         (TrainCall modified_model_definition # evs,
                          Inr (\<lparr>trial_parameters = parameters, metric_score = score,
                                training_stats = train_stats, trial_eval_stats = stats\<rparr>
                               # rs))))))"

text \<open>
  The \<^verbatim>\<open>while not self.hyperopt_strategy.finished()\<close> loop of \<^verbatim>\<open>SerialExecutor.execute\<close>,
  from a strategy \<open>s\<close>, the results so far and the events so far.  \<^verbatim>\<open>sample_batch()\<close> is
  called without an argument: the batch size is the default, 1.
\<close>

function SerialExecutor_loop ::
  "('o, 'ts) run_context \<Rightarrow> (jval, 'o) HyperoptStrategy \<Rightarrow> (jval, 'ts) TrialResult list
    \<Rightarrow> event list \<Rightarrow> event list \<times> (error + (jval, 'ts) TrialResult list)" where
  "SerialExecutor_loop ctx s hyperopt_results trace =
     (if finished s then (trace, Inr (sort_hyperopt_results s hyperopt_results))
      else (case sample_batch (ctx_optimizer ctx) 1 s of
              Inl e \<Rightarrow> (trace, Inl e)
            | Inr (sampled_parameters, s1) \<Rightarrow>
                (case serial_trials ctx sampled_parameters of
                   (evs, Inl e) \<Rightarrow> (trace @ SampleBatch sampled_parameters # evs, Inl e)
                 | (evs, Inr batch) \<Rightarrow>
                     SerialExecutor_loop ctx
                       (update_batch (ctx_optimizer ctx) s1
                          (zip sampled_parameters (map metric_score batch)))
                       (hyperopt_results @ batch)
                       (trace @ SampleBatch sampled_parameters # evs @
                          [UpdateBatch (zip sampled_parameters (map metric_score batch))]))))"
  by pat_completeness auto
termination
  by (relation "measure (\<lambda>(ctx, s, hyperopt_results, trace). remaining s)")
     (auto simp: remaining_update_batch remaining_sample_batch_one)

definition SerialExecutor_execute ::
  "('o, 'ts) run_context \<Rightarrow> (jval, 'o) HyperoptStrategy
    \<Rightarrow> event list \<times> (error + (jval, 'ts) TrialResult list)" where
  "SerialExecutor_execute ctx s = SerialExecutor_loop ctx s [] []"

text \<open>
  \<^verbatim>\<open>pool.map(worker, xs)\<close> of a process pool blocks until every call has returned and
  gives the results in the order of \<open>xs\<close>, or raises the exception of a call that
  failed.  The loop of \<^verbatim>\<open>ParallelExecutor.execute\<close> takes the pool's \<^verbatim>\<open>map\<close> with the
  worker chosen by \<^verbatim>\<open>gpus\<close> as the parameter \<open>pool_map\<close>; \<open>pool_map_of worker\<close> is the
  one of a worker without shared state.
\<close>

fun pool_map_of :: "('a \<Rightarrow> error + 'b) \<Rightarrow> 'a list \<Rightarrow> error + 'b list" where
  "pool_map_of worker [] = Inr []"
| "pool_map_of worker (x # xs) =
     (case worker x of
        Inl e \<Rightarrow> Inl e
      | Inr r \<Rightarrow> (case pool_map_of worker xs of Inl e \<Rightarrow> Inl e | Inr rs \<Rightarrow> Inr (r # rs)))"

text \<open>The \<^verbatim>\<open>for parameters in sampled_parameters\<close> loop of \<^verbatim>\<open>ParallelExecutor.execute\<close>:
  it appends one keyword dictionary per sampled configuration to the list
  \<^verbatim>\<open>hyperopt_parameters\<close>.\<close>

fun append_hyperopt_parameters ::
  "('o, 'ts) run_context \<Rightarrow> jval params list \<Rightarrow> hyperopt_dict list \<Rightarrow> error + hyperopt_dict list" where
  "append_hyperopt_parameters ctx [] hyperopt_parameters = Inr hyperopt_parameters"
| "append_hyperopt_parameters ctx (parameters # rest) hyperopt_parameters =
     (case substitute_parameters (ctx_model_definition ctx) parameters of
        Inl e \<Rightarrow> Inl e
      | Inr modified_model_definition \<Rightarrow>
          append_hyperopt_parameters ctx rest
            (hyperopt_parameters @
               [\<lparr>dict_parameters = parameters,
                 dict_model_definition = modified_model_definition,
                 dict_gpus = ctx_gpus ctx,
                 dict_gpu_memory_limit = ctx_gpu_memory_limit ctx\<rparr>]))"

text \<open>
  The \<^verbatim>\<open>while\<close> loop of \<^verbatim>\<open>ParallelExecutor.execute\<close>.  The list \<^verbatim>\<open>hyperopt_parameters\<close>
  is created once before the loop and is an argument here: every iteration appends to
  it and hands the whole list to the pool.
\<close>

function ParallelExecutor_loop ::
  "('o, 'ts) run_context \<Rightarrow> (hyperopt_dict list \<Rightarrow> error + (jval, 'ts) TrialResult list)
    \<Rightarrow> (jval, 'o) HyperoptStrategy \<Rightarrow> hyperopt_dict list \<Rightarrow> (jval, 'ts) TrialResult list
    \<Rightarrow> event list \<Rightarrow> event list \<times> (error + (jval, 'ts) TrialResult list)" where
  "ParallelExecutor_loop ctx pool_map s hyperopt_parameters hyperopt_results trace =
     (if finished s then (trace, Inr (sort_hyperopt_results s hyperopt_results))
      else (case sample_batch (ctx_optimizer ctx) 1 s of
              Inl e \<Rightarrow> (trace, Inl e)
            | Inr (sampled_parameters, s1) \<Rightarrow>
                (case append_hyperopt_parameters ctx sampled_parameters hyperopt_parameters of
                   Inl e \<Rightarrow> (trace @ [SampleBatch sampled_parameters], Inl e)
                 | Inr hyperopt_parameters' \<Rightarrow>
                     (case pool_map hyperopt_parameters' of
                        Inl e \<Rightarrow>
                          (trace @ [SampleBatch sampled_parameters,
                                    PoolMap hyperopt_parameters'], Inl e)
                      | Inr batch_results \<Rightarrow>
                          ParallelExecutor_loop ctx pool_map
                            (update_batch (ctx_optimizer ctx) s1
                               (map (\<lambda>r. (trial_parameters r, metric_score r)) batch_results))
                            hyperopt_parameters'
                            (hyperopt_results @ batch_results)
                            (trace @
                               [SampleBatch sampled_parameters,
                                PoolMap hyperopt_parameters',
                                UpdateBatch (map (\<lambda>r. (trial_parameters r, metric_score r))
                                               batch_results)])))))"
  by pat_completeness auto
termination
  by (relation "measure (\<lambda>(ctx, pool_map, s, hyperopt_parameters, hyperopt_results, trace).
                   remaining s)")
     (auto simp: remaining_update_batch remaining_sample_batch_one)

text \<open>The loop starts with \<^verbatim>\<open>hyperopt_parameters = []\<close> and \<^verbatim>\<open>hyperopt_results = []\<close>.\<close>

definition ParallelExecutor_execute ::
  "('o, 'ts) run_context \<Rightarrow> (hyperopt_dict list \<Rightarrow> error + (jval, 'ts) TrialResult list)
    \<Rightarrow> (jval, 'o) HyperoptStrategy \<Rightarrow> event list \<times> (error + (jval, 'ts) TrialResult list)" where
  "ParallelExecutor_execute ctx pool_map s = ParallelExecutor_loop ctx pool_map s [] [] []"

text \<open>
  \<^verbatim>\<open>FiberExecutor.execute\<close>: the list comprehension that substitutes every sampled
  configuration, the fiber pool's \<^verbatim>\<open>map\<close> of the training function (the parameter
  \<open>fiber_map\<close>), and the loop over \<^verbatim>\<open>zip(stats_batch, sampled_parameters)\<close>.
\<close>

fun substitute_all :: "jval \<Rightarrow> jval params list \<Rightarrow> error + jval list" where
  "substitute_all model_definition [] = Inr []"
| "substitute_all model_definition (parameters # rest) =
     (case substitute_parameters model_definition parameters of
        Inl e \<Rightarrow> Inl e
      | Inr m \<Rightarrow>
          (case substitute_all model_definition rest of
             Inl e \<Rightarrow> Inl e
           | Inr ms \<Rightarrow> Inr (m # ms)))"

fun fiber_collect ::
  "('o, 'ts) run_context \<Rightarrow> (('ts \<times> eval_stats) \<times> jval params) list
    \<Rightarrow> error + (jval, 'ts) TrialResult list" where
  "fiber_collect ctx [] = Inr []"
| "fiber_collect ctx (((train_stats, stats), parameters) # rest) =
     (case get_metric_score (ctx_output_feature ctx) (ctx_metric ctx) stats of
        Inl e \<Rightarrow> Inl e
      | Inr score \<Rightarrow>
          (case fiber_collect ctx rest of
             Inl e \<Rightarrow> Inl e
           | Inr rs \<Rightarrow>
               Inr (\<lparr>trial_parameters = parameters, metric_score = score,
                     training_stats = train_stats, trial_eval_stats = stats\<rparr> # rs)))"

function FiberExecutor_loop ::
  "('o, 'ts) run_context \<Rightarrow> (jval list \<Rightarrow> error + ('ts \<times> eval_stats) list)
    \<Rightarrow> (jval, 'o) HyperoptStrategy \<Rightarrow> (jval, 'ts) TrialResult list
    \<Rightarrow> event list \<Rightarrow> event list \<times> (error + (jval, 'ts) TrialResult list)" where
  "FiberExecutor_loop ctx fiber_map s hyperopt_results trace =
     (if finished s then (trace, Inr (sort_hyperopt_results s hyperopt_results))
      else (case sample_batch (ctx_optimizer ctx) 1 s of
              Inl e \<Rightarrow> (trace, Inl e)
            | Inr (sampled_parameters, s1) \<Rightarrow>
                (case substitute_all (ctx_model_definition ctx) sampled_parameters of
                   Inl e \<Rightarrow> (trace @ [SampleBatch sampled_parameters], Inl e)
                 | Inr definitions \<Rightarrow>
                     (case fiber_map definitions of
                        Inl e \<Rightarrow>
                          (trace @ [SampleBatch sampled_parameters, FiberMap definitions], Inl e)
                      | Inr stats_batch \<Rightarrow>
                          (case fiber_collect ctx (zip stats_batch sampled_parameters) of
                             Inl e \<Rightarrow>
                               (trace @ [SampleBatch sampled_parameters,
                                         FiberMap definitions], Inl e)
                           | Inr batch \<Rightarrow>
                               FiberExecutor_loop ctx fiber_map
                                 (update_batch (ctx_optimizer ctx) s1
                                    (zip sampled_parameters (map metric_score batch)))
                                 (hyperopt_results @ batch)
                                 (trace @
                                    [SampleBatch sampled_parameters,
                                     FiberMap definitions,
                                     UpdateBatch (zip sampled_parameters
                                                    (map metric_score batch))]))))))"
  by pat_completeness auto
termination
  by (relation "measure (\<lambda>(ctx, fiber_map, s, hyperopt_results, trace). remaining s)")
     (auto simp: remaining_update_batch remaining_sample_batch_one)

definition FiberExecutor_execute ::
  "('o, 'ts) run_context \<Rightarrow> (jval list \<Rightarrow> error + ('ts \<times> eval_stats) list)
    \<Rightarrow> (jval, 'o) HyperoptStrategy \<Rightarrow> event list \<times> (error + (jval, 'ts) TrialResult list)" where
  "FiberExecutor_execute ctx fiber_map s = FiberExecutor_loop ctx fiber_map s [] []"

text \<open>The parts of a run: the batches sampled, the trials called directly, the lists
  handed to a pool, and the observations handed to the strategy, each in order.\<close>

fun sampled_batches :: "event list \<Rightarrow> jval params list list" where
  "sampled_batches [] = []"
| "sampled_batches (SampleBatch b # es) = b # sampled_batches es"
| "sampled_batches (e # es) = sampled_batches es"

fun train_calls :: "event list \<Rightarrow> jval list" where
  "train_calls [] = []"
| "train_calls (TrainCall m # es) = m # train_calls es"
| "train_calls (e # es) = train_calls es"

fun pool_map_calls :: "event list \<Rightarrow> hyperopt_dict list list" where
  "pool_map_calls [] = []"
| "pool_map_calls (PoolMap xs # es) = xs # pool_map_calls es"
| "pool_map_calls (e # es) = pool_map_calls es"

fun fiber_map_calls :: "event list \<Rightarrow> jval list list" where
  "fiber_map_calls [] = []"
| "fiber_map_calls (FiberMap xs # es) = xs # fiber_map_calls es"
| "fiber_map_calls (e # es) = fiber_map_calls es"

fun update_batches :: "event list \<Rightarrow> (jval params \<times> pyfloat) list list" where
  "update_batches [] = []"
| "update_batches (UpdateBatch ps # es) = ps # update_batches es"
| "update_batches (e # es) = update_batches es"

text \<open>A sequence of lists is chained from \<open>xs\<close> when \<open>xs\<close> is an initial segment of the
  first list and every list is an initial segment of the next one.\<close>

fun chained :: "'a list \<Rightarrow> 'a list list \<Rightarrow> bool" where
  "chained xs [] = True"
| "chained xs (ys # yss) = (take (length xs) ys = xs \<and> chained ys yss)"

subsection \<open>An example run\<close>

text \<open>
  A complete model definition, a training function whose loss is 1 for the batch size
  32 and 2 otherwise, and a strategy with the two configurations "batch size 32" and
  "batch size 64".
\<close>

definition example_model_definition :: jval where
  "example_model_definition =
     JDict [(''input_features'', JList [JDict [(''name'', JStr ''text'')]]),
            (''output_features'', JList [JDict [(''name'', JStr ''label'')]]),
            (''combiner'', JDict []),
            (''training'', JDict [(''batch_size'', JInt 16)]),
            (''preprocessing'', JDict [])]"

definition example_train :: "unit train_fn" where
  "example_train model_definition gpus gpu_memory_limit =
     (if get_item model_definition ''training'' = Inr (JDict [(''batch_size'', JInt 32)])
      then Inr ((), [(''combined'', [(''loss'', Num 1)])])
      else Inr ((), [(''combined'', [(''loss'', Num 2)])]))"

definition example_context :: "(unit, unit) run_context" where
  "example_context =
     \<lparr>ctx_optimizer = \<lparr>suggest = (\<lambda>opt. ([], opt)), observe = (\<lambda>opt p score. opt)\<rparr>,
      ctx_train = example_train,
      ctx_output_feature = ''combined'',
      ctx_metric = ''loss'',
      ctx_model_definition = example_model_definition,
      ctx_gpus = None,
      ctx_gpu_memory_limit = None\<rparr>"

definition example_grid :: "(jval, unit) HyperoptStrategy" where
  "example_grid =
     GridStrategy MINIMIZE [(''training.batch_size'', [JInt 32, JInt 64])]
       [[(''training.batch_size'', JInt 32)], [(''training.batch_size'', JInt 64)]] 0"

definition example_random :: "(jval, unit) HyperoptStrategy" where
  "example_random =
     RandomStrategy MINIMIZE
       [[(''training.batch_size'', JInt 32)], [(''training.batch_size'', JInt 64)]] 0"

text \<open>The process pool with the worker \<^verbatim>\<open>_train_and_eval_model\<close>, and the fiber pool with
  the training function applied to a substituted model definition.\<close>

definition example_pool_map ::
  "hyperopt_dict list \<Rightarrow> error + (jval, unit) TrialResult list" where
  "example_pool_map =
     pool_map_of (train_and_eval_model example_train ''combined'' ''loss'')"

definition example_fiber_map :: "jval list \<Rightarrow> error + (unit \<times> eval_stats) list" where
  "example_fiber_map = pool_map_of (\<lambda>m. example_train m None None)"

section \<open>Properties\<close>

subsection \<open>Strategies\<close>

lemma sample_error_iff_finished: "(\<exists>e. sample lib s = Inl e) \<longleftrightarrow> finished s"
  by (cases s) (auto split: prod.splits)

lemma sample_error_IndexError: "sample lib s = Inl e \<Longrightarrow> e = IndexError"
  by (cases s) (auto split: prod.splits if_splits)

lemma sample_batch_loop_exhausted:
  "sample lib s = Inl IndexError \<Longrightarrow> acc \<noteq> [] \<Longrightarrow> sample_batch_loop lib k acc s = Inr (acc, s)"
  by (induction k) auto

lemma sample_batch_loop_collects:
  "acc \<noteq> [] \<Longrightarrow>
   sample_batch_loop lib k acc s =
     Inr (acc @ fst (samples_until_exhaustion lib k s), snd (samples_until_exhaustion lib k s))"
proof (induction k arbitrary: acc s)
  case 0
  then show ?case by simp
next
  case (Suc k)
  show ?case
  proof (cases "sample lib s")
    case (Inl e)
    then have e: "sample lib s = Inl IndexError"
      using sample_error_IndexError by blast
    have "sample_batch_loop lib (Suc k) acc s = Inr (acc, s)"
      using sample_batch_loop_exhausted [OF e Suc.prems] .
    then show ?thesis using Inl by simp
  next
    case (Inr p)
    obtain x s' where p: "p = (x, s')" by (cases p)
    have "sample_batch_loop lib (Suc k) acc s = sample_batch_loop lib k (acc @ [x]) s'"
      using Inr p by simp
    also have "\<dots> = Inr ((acc @ [x]) @ fst (samples_until_exhaustion lib k s'),
                         snd (samples_until_exhaustion lib k s'))"
      by (rule Suc.IH) simp
    finally show ?thesis using Inr p by (simp add: case_prod_beta)
  qed
qed

lemma samples_until_exhaustion_Inr:
  "sample lib s = Inr (x, s') \<Longrightarrow>
   samples_until_exhaustion lib (Suc k) s =
     (x # fst (samples_until_exhaustion lib k s'), snd (samples_until_exhaustion lib k s'))"
  by (simp add: case_prod_beta)

lemma samples_until_exhaustion_Inl:
  "sample lib s = Inl e \<Longrightarrow> samples_until_exhaustion lib (Suc k) s = ([], s)"
  by simp

lemma samples_until_exhaustion_length:
  "length (fst (samples_until_exhaustion lib k s)) \<le> k"
proof (induction k arbitrary: s)
  case 0
  then show ?case by simp
next
  case (Suc k)
  show ?case
  proof (cases "sample lib s")
    case (Inl e)
    then show ?thesis by (simp only: samples_until_exhaustion_Inl) simp
  next
    case (Inr p)
    obtain x s' where p: "p = (x, s')" by (cases p)
    show ?thesis
      using Suc.IH [of s'] Inr p by (simp only: samples_until_exhaustion_Inr) simp
  qed
qed

lemma samples_until_exhaustion_short_finished:
  "length (fst (samples_until_exhaustion lib k s)) < k
   \<Longrightarrow> finished (snd (samples_until_exhaustion lib k s))"
proof (induction k arbitrary: s)
  case 0
  then show ?case by simp
next
  case (Suc k)
  show ?case
  proof (cases "sample lib s")
    case (Inl e)
    then have "finished s" using sample_error_iff_finished by blast
    then show ?thesis using Inl by simp
  next
    case (Inr p)
    obtain x s' where p: "p = (x, s')" by (cases p)
    have eq: "samples_until_exhaustion lib (Suc k) s =
        (x # fst (samples_until_exhaustion lib k s'), snd (samples_until_exhaustion lib k s'))"
      using Inr p by (simp only: samples_until_exhaustion_Inr)
    have "length (fst (samples_until_exhaustion lib k s')) < k"
      using Suc.prems by (simp only: eq) simp
    then have "finished (snd (samples_until_exhaustion lib k s'))" by (rule Suc.IH)
    then show ?thesis by (simp only: eq) simp
  qed
qed

text \<open>
  Claim C2.  For each of the three strategies and every batch size of at least one:
  when the first \<^verbatim>\<open>sample\<close> call of the invocation is already exhausted, \<^verbatim>\<open>sample_batch\<close>
  raises the exhaustion error (\<^verbatim>\<open>IndexError\<close>); when the first call succeeds,
  \<^verbatim>\<open>sample_batch\<close> returns without raising, the list it returns is non-empty and is
  exactly the samples produced until exhaustion (at most \<open>batch_size\<close> of them), and if
  that list is shorter than \<open>batch_size\<close> the strategy it leaves behind is finished.
\<close>

theorem sample_batch_partial_on_exhaustion:
  assumes "1 \<le> batch_size"
  shows "(sample lib s = Inl IndexError \<longrightarrow> sample_batch lib batch_size s = Inl IndexError) \<and>
         (\<forall>x s1. sample lib s = Inr (x, s1) \<longrightarrow>
            (\<exists>xs s'. sample_batch lib batch_size s = Inr (xs, s') \<and>
               xs \<noteq> [] \<and> hd xs = x \<and> length xs \<le> batch_size \<and>
               (xs, s') = samples_until_exhaustion lib batch_size s \<and>
               (length xs < batch_size \<longrightarrow> finished s' \<and> sample lib s' = Inl IndexError)))"
proof -
  obtain k where k: "batch_size = Suc k"
    using assms by (cases batch_size) auto
  have first: "sample lib s = Inl IndexError \<longrightarrow> sample_batch lib batch_size s = Inl IndexError"
    by (simp add: sample_batch_def k)
  have rest: "\<exists>xs s'. sample_batch lib batch_size s = Inr (xs, s') \<and>
               xs \<noteq> [] \<and> hd xs = x \<and> length xs \<le> batch_size \<and>
               (xs, s') = samples_until_exhaustion lib batch_size s \<and>
               (length xs < batch_size \<longrightarrow> finished s' \<and> sample lib s' = Inl IndexError)"
    if ok: "sample lib s = Inr (x, s1)" for x s1
  proof -
    let ?r = "samples_until_exhaustion lib k s1"
    have run: "sample_batch lib batch_size s = Inr ([x] @ fst ?r, snd ?r)"
      using ok sample_batch_loop_collects [of "[x]" lib k s1]
      by (simp add: sample_batch_def k)
    have ref: "samples_until_exhaustion lib batch_size s = (x # fst ?r, snd ?r)"
      using ok by (simp only: k samples_until_exhaustion_Inr)
    have len: "length (x # fst ?r) \<le> batch_size"
      using samples_until_exhaustion_length [of lib k s1] by (simp add: k)
    have fin: "finished (snd ?r) \<and> sample lib (snd ?r) = Inl IndexError"
      if "length (x # fst ?r) < batch_size"
    proof -
      have "length (fst ?r) < k" using that by (simp add: k)
      then have f: "finished (snd ?r)" by (rule samples_until_exhaustion_short_finished)
      then obtain e where "sample lib (snd ?r) = Inl e"
        using sample_error_iff_finished by blast
      then show ?thesis using f sample_error_IndexError by blast
    qed
    show ?thesis using run ref len fin by auto
  qed
  show ?thesis using first rest by blast
qed

theorem sample_batch_partial_on_exhaustion_witness:
  "(1 :: nat) \<le> 3 \<and>
   sample_batch \<lparr>suggest = (\<lambda>opt :: unit. ([], opt)), observe = (\<lambda>opt p score. opt)\<rparr> 3
       (GridStrategy MINIMIZE [(''a'', [1, 2 :: int])] [[(''a'', 1)], [(''a'', 2)]] 0)
     = Inr ([[(''a'', 1)], [(''a'', 2)]],
            GridStrategy MINIMIZE [(''a'', [1, 2])] [[(''a'', 1)], [(''a'', 2)]] 2) \<and>
   finished (GridStrategy MINIMIZE [(''a'', [1, 2 :: int])] [[(''a'', 1)], [(''a'', 2)]] 2
               :: (int, unit) HyperoptStrategy) \<and>
   sample_batch \<lparr>suggest = (\<lambda>opt :: unit. ([], opt)), observe = (\<lambda>opt p score. opt)\<rparr> 3
       (GridStrategy MINIMIZE [(''a'', [1, 2 :: int])] [[(''a'', 1)], [(''a'', 2)]] 2)
     = Inl IndexError"
  using sample_batch_partial_on_exhaustion
    [of 3 "\<lparr>suggest = (\<lambda>opt :: unit. ([], opt)), observe = (\<lambda>opt p score. opt)\<rparr>"
        "GridStrategy MINIMIZE [(''a'', [1, 2 :: int])] [[(''a'', 1)], [(''a'', 2)]] 0"]
    sample_batch_partial_on_exhaustion
    [of 3 "\<lparr>suggest = (\<lambda>opt :: unit. ([], opt)), observe = (\<lambda>opt p score. opt)\<rparr>"
        "GridStrategy MINIMIZE [(''a'', [1, 2 :: int])] [[(''a'', 1)], [(''a'', 2)]] 2"]
  by (simp add: sample_batch_def numeral_3_eq_3)

subsection \<open>Ranking of the results\<close>

text \<open>
  The sort is verified against a key \<open>k\<close> into a linear order that the comparison \<open>lt\<close>
  agrees with on the elements of the list: the binary search finds the position after
  the last element whose key is not greater than the pivot's, so an insertion keeps the
  run sorted and keeps the order of the elements of each key.
\<close>

lemma binary_position_bounds:
  "l \<le> r \<Longrightarrow> l \<le> binary_position lt pivot run l r \<and> binary_position lt pivot run l r \<le> r"
proof (induction lt pivot run l r rule: binary_position.induct)
  case (1 lt pivot run l r)
  show ?case
  proof (cases "l < r")
    case False
    then show ?thesis using "1.prems" by (subst (1 2) binary_position.simps) simp
  next
    case True
    let ?p = "l + (r - l) div 2"
    have p: "l \<le> ?p" "?p < r" using True by auto
    show ?thesis
    proof (cases "lt pivot (run ! ?p)")
      case lt: True
      have "l \<le> binary_position lt pivot run l ?p \<and> binary_position lt pivot run l ?p \<le> ?p"
        using "1.IH"(1) [OF True lt] p by simp
      then show ?thesis using True lt p by (subst (1 2) binary_position.simps) simp
    next
      case ge: False
      have "?p + 1 \<le> binary_position lt pivot run (?p + 1) r
            \<and> binary_position lt pivot run (?p + 1) r \<le> r"
        using "1.IH"(2) [OF True ge] p by simp
      then show ?thesis using True ge p by (subst (1 2) binary_position.simps) simp
    qed
  qed
qed


lemma binary_position_splits:
  assumes "sorted (map k run)" "r \<le> length run" "l \<le> r"
    and "\<forall>x \<in> set run. lt pivot x = (k pivot < k x)"
    and "\<forall>i < l. k (run ! i) \<le> k pivot"
    and "\<forall>i. r \<le> i \<and> i < length run \<longrightarrow> k pivot < k (run ! i)"
  shows "(\<forall>i < binary_position lt pivot run l r. k (run ! i) \<le> k pivot) \<and>
         (\<forall>i. binary_position lt pivot run l r \<le> i \<and> i < length run
               \<longrightarrow> k pivot < k (run ! i))"
  using assms
proof (induction lt pivot run l r rule: binary_position.induct)
  case (1 lt pivot run l r)
  show ?case
  proof (cases "l < r")
    case False
    then have "binary_position lt pivot run l r = l" by (subst binary_position.simps) simp
    moreover have "l = r" using False "1.prems"(3) by simp
    ultimately show ?thesis using "1.prems"(5,6) by simp
  next
    case True
    let ?p = "l + (r - l) div 2"
    have p: "l \<le> ?p" "?p < r" "?p < length run" using True "1.prems"(2) by auto
    have mem: "run ! ?p \<in> set run" using p(3) by simp
    have srt: "\<And>i j. i \<le> j \<Longrightarrow> j < length run \<Longrightarrow> k (run ! i) \<le> k (run ! j)"
      using "1.prems"(1) by (simp add: sorted_iff_nth_mono)
    show ?thesis
    proof (cases "lt pivot (run ! ?p)")
      case lt: True
      then have less: "k pivot < k (run ! ?p)" using "1.prems"(4) mem by simp
      have up: "\<forall>i. ?p \<le> i \<and> i < length run \<longrightarrow> k pivot < k (run ! i)"
      proof (intro allI impI)
        fix i assume i: "?p \<le> i \<and> i < length run"
        then have "k (run ! ?p) \<le> k (run ! i)" using srt by simp
        then show "k pivot < k (run ! i)" using less by simp
      qed
      have "(\<forall>i < binary_position lt pivot run l ?p. k (run ! i) \<le> k pivot) \<and>
         (\<forall>i. binary_position lt pivot run l ?p \<le> i \<and> i < length run
               \<longrightarrow> k pivot < k (run ! i))"
        using "1.IH"(1) [OF True lt "1.prems"(1) _ _ "1.prems"(4) "1.prems"(5) up] p by simp
      moreover have "binary_position lt pivot run l r = binary_position lt pivot run l ?p"
        using True lt by (subst binary_position.simps) simp
      ultimately show ?thesis by simp
    next
      case ge: False
      then have le: "k (run ! ?p) \<le> k pivot" using "1.prems"(4) mem by auto
      have low: "\<forall>i < ?p + 1. k (run ! i) \<le> k pivot"
      proof (intro allI impI)
        fix i assume i: "i < ?p + 1"
        then have "k (run ! i) \<le> k (run ! ?p)" using srt p(3) by simp
        then show "k (run ! i) \<le> k pivot" using le by simp
      qed
      have "(\<forall>i < binary_position lt pivot run (?p + 1) r. k (run ! i) \<le> k pivot) \<and>
         (\<forall>i. binary_position lt pivot run (?p + 1) r \<le> i \<and> i < length run
               \<longrightarrow> k pivot < k (run ! i))"
        using "1.IH"(2) [OF True ge "1.prems"(1) "1.prems"(2) _ "1.prems"(4) low "1.prems"(6)] p
        by simp
      moreover have "binary_position lt pivot run l r = binary_position lt pivot run (?p + 1) r"
        using True ge by (subst binary_position.simps) simp
      ultimately show ?thesis by simp
    qed
  qed
qed


lemma insert_at_position:
  assumes "sorted (map k run)" "pos \<le> length run"
    and "\<forall>i < pos. k (run ! i) \<le> k pivot"
    and "\<forall>i. pos \<le> i \<and> i < length run \<longrightarrow> k pivot < k (run ! i)"
  shows "sorted (map k (take pos run @ pivot # drop pos run))"
    and "filter (\<lambda>x. k x = v) (take pos run @ pivot # drop pos run)
         = filter (\<lambda>x. k x = v) (run @ [pivot])"
proof -
  have before: "\<forall>x \<in> set (take pos run). k x \<le> k pivot"
  proof
    fix x assume "x \<in> set (take pos run)"
    then obtain i where "i < length (take pos run)" "take pos run ! i = x"
      by (auto simp: in_set_conv_nth)
    then show "k x \<le> k pivot" using assms(2,3) by auto
  qed
  have after: "\<forall>x \<in> set (drop pos run). k pivot < k x"
  proof
    fix x assume "x \<in> set (drop pos run)"
    then obtain i where i: "i < length (drop pos run)" "drop pos run ! i = x"
      by (auto simp: in_set_conv_nth)
    then have "run ! (pos + i) = x" "pos + i < length run" using assms(2) by auto
    then show "k pivot < k x" using assms(4) by auto
  qed
  have st: "sorted (map k (take pos run))"
    using assms(1) sorted_wrt_take [of "(\<le>)" "map k run" pos] by (simp add: take_map)
  have sd: "sorted (map k (drop pos run))"
    using assms(1) sorted_wrt_drop [of "(\<le>)" "map k run" pos] by (simp add: drop_map)
  have cross: "\<forall>x \<in> set (take pos run). \<forall>y \<in> set (drop pos run). k x \<le> k y"
    using before after by (meson le_less_trans less_imp_le)
  show "sorted (map k (take pos run @ pivot # drop pos run))"
    using st sd before after cross by (simp add: sorted_append less_imp_le)
  have split: "filter (\<lambda>x. k x = v) run
               = filter (\<lambda>x. k x = v) (take pos run) @ filter (\<lambda>x. k x = v) (drop pos run)"
    by (metis append_take_drop_id filter_append)
  show "filter (\<lambda>x. k x = v) (take pos run @ pivot # drop pos run)
         = filter (\<lambda>x. k x = v) (run @ [pivot])"
  proof (cases "k pivot = v")
    case True
    then have e: "filter (\<lambda>x. k x = v) (drop pos run) = []"
      using after by (auto simp: filter_empty_conv)
    have "filter (\<lambda>x. k x = v) (take pos run @ pivot # drop pos run)
          = filter (\<lambda>x. k x = v) (take pos run) @ [pivot]"
      using True e by simp
    moreover have "filter (\<lambda>x. k x = v) (run @ [pivot])
          = filter (\<lambda>x. k x = v) (take pos run) @ [pivot]"
      using True e split by simp
    ultimately show ?thesis by simp
  next
    case False
    have "filter (\<lambda>x. k x = v) (take pos run @ pivot # drop pos run)
          = filter (\<lambda>x. k x = v) (take pos run) @ filter (\<lambda>x. k x = v) (drop pos run)"
      using False by simp
    moreover have "filter (\<lambda>x. k x = v) (run @ [pivot])
          = filter (\<lambda>x. k x = v) (take pos run) @ filter (\<lambda>x. k x = v) (drop pos run)"
      using False split by simp
    ultimately show ?thesis by simp
  qed
qed

lemma mset_binarysort: "mset (binarysort lt run rest) = mset run + mset rest"
proof (induction rest arbitrary: run)
  case Nil
  then show ?case by simp
next
  case (Cons pivot rest)
  let ?l = "binary_position lt pivot run 0 (length run)"
  have "mset (take ?l run @ pivot # drop ?l run) = mset run + {#pivot#}"
    by (metis append_take_drop_id mset.simps(2) mset_append union_mset_add_mset_right
        add_mset_add_single union_assoc)
  then show ?case using Cons.IH [of "take ?l run @ pivot # drop ?l run"]
    by (simp add: Let_def)
qed

lemma binarysort_sorted_stable:
  assumes "sorted (map k run)"
    and "\<forall>x \<in> set run \<union> set rest. \<forall>y \<in> set run \<union> set rest. lt x y = (k x < k y)"
  shows "sorted (map k (binarysort lt run rest)) \<and>
         filter (\<lambda>x. k x = v) (binarysort lt run rest) = filter (\<lambda>x. k x = v) (run @ rest)"
  using assms
proof (induction rest arbitrary: run)
  case Nil
  then show ?case by simp
next
  case (Cons pivot rest)
  let ?l = "binary_position lt pivot run 0 (length run)"
  let ?run' = "take ?l run @ pivot # drop ?l run"
  have cmp: "\<forall>x \<in> set run. lt pivot x = (k pivot < k x)" using Cons.prems(2) by simp
  have b: "?l \<le> length run" using binary_position_bounds [of 0 "length run" lt pivot run] by simp
  have sp: "(\<forall>i < ?l. k (run ! i) \<le> k pivot) \<and>
            (\<forall>i. ?l \<le> i \<and> i < length run \<longrightarrow> k pivot < k (run ! i))"
  proof -
    have vac: "\<forall>i. length run \<le> i \<and> i < length run \<longrightarrow> k pivot < k (run ! i)" by auto
    show ?thesis
      using binary_position_splits
        [where k = k and run = run and lt = lt and pivot = pivot and l = 0 and r = "length run"]
        Cons.prems(1) cmp vac
      by simp
  qed
  have s': "sorted (map k ?run')"
    using insert_at_position(1) [OF Cons.prems(1) b] sp by blast
  have f': "filter (\<lambda>x. k x = v) ?run' = filter (\<lambda>x. k x = v) (run @ [pivot])"
    using insert_at_position(2) [OF Cons.prems(1) b] sp by blast
  have "set ?run' = set run \<union> {pivot}"
    by (metis Un_insert_right append_take_drop_id list.simps(15) set_append sup_bot.right_neutral
        Un_assoc Un_commute insert_is_Un)
  then have cmp': "\<forall>x \<in> set ?run' \<union> set rest. \<forall>y \<in> set ?run' \<union> set rest. lt x y = (k x < k y)"
    using Cons.prems(2) by auto
  have ih: "sorted (map k (binarysort lt ?run' rest)) \<and>
        filter (\<lambda>x. k x = v) (binarysort lt ?run' rest) = filter (\<lambda>x. k x = v) (?run' @ rest)"
    by (rule Cons.IH [OF s' cmp'])
  have unfold: "binarysort lt run (pivot # rest) = binarysort lt ?run' rest"
    by (simp add: Let_def)
  have "filter (\<lambda>x. k x = v) (binarysort lt ?run' rest)
        = filter (\<lambda>x. k x = v) ?run' @ filter (\<lambda>x. k x = v) rest"
    using ih by (simp only: filter_append)
  also have "\<dots> = filter (\<lambda>x. k x = v) (run @ [pivot]) @ filter (\<lambda>x. k x = v) rest"
    by (simp only: f')
  also have "\<dots> = filter (\<lambda>x. k x = v) (run @ pivot # rest)"
    by simp
  finally have "filter (\<lambda>x. k x = v) (binarysort lt ?run' rest)
        = filter (\<lambda>x. k x = v) (run @ pivot # rest)" .
  then show ?case using ih by (simp only: unfold)
qed


lemma ascending_run_le: "ascending_run lt prev xs \<le> length xs"
  by (induction xs arbitrary: prev) auto

lemma descending_run_le: "descending_run lt prev xs \<le> length xs"
  by (induction xs arbitrary: prev) auto

lemma ascending_run_sorted:
  fixes k :: "'a \<Rightarrow> 'b::linorder"
  assumes "\<forall>x \<in> set (prev # xs). \<forall>y \<in> set (prev # xs). lt x y = (k x < k y)"
  shows "sorted (map k (prev # take (ascending_run lt prev xs) xs))"
  using assms
proof (induction xs arbitrary: prev)
  case Nil
  show ?case by simp
next
  case (Cons x xs)
  show ?case
  proof (cases "lt x prev")
    case True
    then show ?thesis by simp
  next
    case False
    then have le: "k prev \<le> k x" using Cons.prems by auto
    have "\<forall>a \<in> set (x # xs). \<forall>b \<in> set (x # xs). lt a b = (k a < k b)"
      using Cons.prems by simp
    then have "sorted (map k (x # take (ascending_run lt x xs) xs))"
      by (rule Cons.IH)
    then show ?thesis using False le by auto
  qed
qed

lemma descending_run_strict:
  fixes k :: "'a \<Rightarrow> 'b::linorder"
  assumes "\<forall>x \<in> set (prev # xs). \<forall>y \<in> set (prev # xs). lt x y = (k x < k y)"
  shows "sorted_wrt (\<lambda>a b. k b < k a) (prev # take (descending_run lt prev xs) xs)"
  using assms
proof (induction xs arbitrary: prev)
  case Nil
  show ?case by simp
next
  case (Cons x xs)
  show ?case
  proof (cases "lt x prev")
    case False
    then show ?thesis by simp
  next
    case True
    then have less: "k x < k prev" using Cons.prems by auto
    have "\<forall>a \<in> set (x # xs). \<forall>b \<in> set (x # xs). lt a b = (k a < k b)"
      using Cons.prems by simp
    then have ih: "sorted_wrt (\<lambda>a b. k b < k a) (x # take (descending_run lt x xs) xs)"
      by (rule Cons.IH)
    then have "\<forall>z \<in> set (take (descending_run lt x xs) xs). k z < k prev"
      using less by auto
    then show ?thesis using True less ih by simp
  qed
qed

lemma strict_run_filter_short:
  fixes k :: "'a \<Rightarrow> 'b::linorder"
  shows "sorted_wrt (\<lambda>a b. k b < k a) ys \<Longrightarrow> length (filter (\<lambda>x. k x = v) ys) \<le> 1"
  by (induction ys) (auto simp: filter_empty_conv)

lemma rev_short: "length zs \<le> 1 \<Longrightarrow> rev zs = zs"
  by (cases zs) auto

lemma strict_run_reversed:
  fixes k :: "'a \<Rightarrow> 'b::linorder"
  assumes "sorted_wrt (\<lambda>a b. k b < k a) ys"
  shows "sorted (map k (rev ys))"
    and "filter (\<lambda>x. k x = v) (rev ys) = filter (\<lambda>x. k x = v) ys"
proof -
  have "sorted_wrt (\<lambda>a b. k a < k b) (rev ys)"
    using assms by (simp add: sorted_wrt_rev)
  then have "sorted_wrt (\<lambda>a b. k a \<le> k b) (rev ys)"
    by (rule sorted_wrt_mono_rel [rotated]) simp
  then show "sorted (map k (rev ys))"
    by (simp only: sorted_map)
  have "filter (\<lambda>x. k x = v) (rev ys) = rev (filter (\<lambda>x. k x = v) ys)"
    by (simp only: rev_filter)
  also have "\<dots> = filter (\<lambda>x. k x = v) ys"
    by (rule rev_short [OF strict_run_filter_short [OF assms]])
  finally show "filter (\<lambda>x. k x = v) (rev ys) = filter (\<lambda>x. k x = v) ys" .
qed

lemma count_run_sorted:
  fixes k :: "'a \<Rightarrow> 'b::linorder"
  assumes cmp: "\<forall>x \<in> set xs. \<forall>y \<in> set xs. lt x y = (k x < k y)"
    and run: "count_run lt xs = (n, descending)"
  shows "sorted (map k (if descending then rev (take n xs) else take n xs)) \<and>
         filter (\<lambda>x. k x = v) (if descending then rev (take n xs) else take n xs)
           = filter (\<lambda>x. k x = v) (take n xs)"
proof (cases xs)
  case Nil
  then show ?thesis by simp
next
  case outer: (Cons x ys)
  show ?thesis
  proof (cases ys)
    case Nil
    then show ?thesis using outer run by auto
  next
    case (Cons y rest)
    have xs: "xs = x # y # rest" using outer Cons by simp
    have cmp': "\<forall>a \<in> set (y # rest). \<forall>b \<in> set (y # rest). lt a b = (k a < k b)"
      using cmp xs by simp
    show ?thesis
    proof (cases "lt y x")
      case True
      then have n: "n = 2 + descending_run lt y rest" and d: "descending"
        using run xs by auto
      have less: "k y < k x" using True cmp xs by auto
      have tl: "sorted_wrt (\<lambda>a b. k b < k a) (y # take (descending_run lt y rest) rest)"
        by (rule descending_run_strict [OF cmp'])
      then have "\<forall>z \<in> set (y # take (descending_run lt y rest) rest). k z < k x"
        using less by auto
      then have "sorted_wrt (\<lambda>a b. k b < k a) (x # y # take (descending_run lt y rest) rest)"
        using tl by simp
      then have strict: "sorted_wrt (\<lambda>a b. k b < k a) (take n xs)"
        by (simp add: n xs)
      show ?thesis
        using strict_run_reversed [OF strict] d by simp
    next
      case False
      then have n: "n = 2 + ascending_run lt y rest" and d: "\<not> descending"
        using run xs by auto
      have le: "k x \<le> k y" using False cmp xs by auto
      have "sorted (map k (y # take (ascending_run lt y rest) rest))"
        by (rule ascending_run_sorted [OF cmp'])
      then have "sorted (map k (x # y # take (ascending_run lt y rest) rest))"
        using le by auto
      then have "sorted (map k (take n xs))"
        by (simp add: n xs)
      then show ?thesis using d by simp
    qed
  qed
qed

lemma list_sort_sorted_stable:
  fixes k :: "'a \<Rightarrow> 'b::linorder"
  assumes cmp: "\<forall>x \<in> set xs. \<forall>y \<in> set xs. lt x y = (k x < k y)"
  shows "sorted (map k (list_sort lt xs)) \<and>
         filter (\<lambda>x. k x = v) (list_sort lt xs) = filter (\<lambda>x. k x = v) xs"
proof (cases "length xs < 2")
  case True
  then have "xs = [] \<or> (\<exists>x. xs = [x])"
    by (cases xs) (auto simp: length_Suc_conv)
  then show ?thesis using True by (auto simp: list_sort_def)
next
  case False
  obtain n descending where run: "count_run lt xs = (n, descending)"
    by (cases "count_run lt xs")
  define first where "first = (if descending then rev (take n xs) else take n xs)"
  have first: "sorted (map k first)"
    "filter (\<lambda>x. k x = v) first = filter (\<lambda>x. k x = v) (take n xs)"
    using count_run_sorted [OF cmp run, of v] by (simp_all add: first_def)
  have "set first \<union> set (drop n xs) \<subseteq> set xs"
    using set_take_subset [of n xs] set_drop_subset [of n xs] by (auto simp: first_def)
  then have cmp': "\<forall>x \<in> set first \<union> set (drop n xs). \<forall>y \<in> set first \<union> set (drop n xs).
                     lt x y = (k x < k y)"
    using cmp by blast
  have sorted: "sorted (map k (binarysort lt first (drop n xs))) \<and>
        filter (\<lambda>x. k x = v) (binarysort lt first (drop n xs))
          = filter (\<lambda>x. k x = v) (first @ drop n xs)"
    by (rule binarysort_sorted_stable [OF first(1) cmp'])
  have "filter (\<lambda>x. k x = v) (first @ drop n xs)
        = filter (\<lambda>x. k x = v) (take n xs) @ filter (\<lambda>x. k x = v) (drop n xs)"
    by (simp only: filter_append first(2))
  also have "\<dots> = filter (\<lambda>x. k x = v) xs"
    by (metis append_take_drop_id filter_append)
  finally have eq: "filter (\<lambda>x. k x = v) (first @ drop n xs) = filter (\<lambda>x. k x = v) xs" .
  have unfold: "list_sort lt xs = binarysort lt first (drop n xs)"
    using False run by (simp add: list_sort_def first_def)
  show ?thesis using sorted eq by (simp only: unfold) 
qed

lemma mset_list_sort: "mset (list_sort lt xs) = mset xs"
proof (cases "length xs < 2")
  case True
  then show ?thesis by (simp add: list_sort_def)
next
  case False
  obtain n descending where run: "count_run lt xs = (n, descending)"
    by (cases "count_run lt xs")
  have "mset (take n xs) + mset (drop n xs) = mset xs"
    by (metis append_take_drop_id mset_append)
  then show ?thesis
    using False run by (simp add: list_sort_def mset_binarysort)
qed

lemma mset_sorted_builtin: "mset (sorted_builtin lt key reverse xs) = mset xs"
  by (simp add: sorted_builtin_def mset_list_sort)


lemma sorted_builtin_sorted_stable:
  fixes k :: "'a \<Rightarrow> 'b::linorder"
  assumes cmp: "\<forall>x \<in> set xs. \<forall>y \<in> set xs. lt (key x) (key y) = (k x < k y)"
  shows "sorted (map k (sorted_builtin lt key False xs))"
    and "sorted_wrt (\<lambda>a b. k b \<le> k a) (sorted_builtin lt key True xs)"
    and "filter (\<lambda>x. k x = v) (sorted_builtin lt key reverse xs) = filter (\<lambda>x. k x = v) xs"
proof -
  let ?lt = "\<lambda>a b. lt (key a) (key b)"
  have fwd: "sorted (map k (list_sort ?lt xs)) \<and>
             filter (\<lambda>x. k x = v) (list_sort ?lt xs) = filter (\<lambda>x. k x = v) xs"
    by (rule list_sort_sorted_stable) (use cmp in simp)
  have cmp_rev: "\<forall>x \<in> set (rev xs). \<forall>y \<in> set (rev xs). ?lt x y = (k x < k y)"
    using cmp by simp
  have bwd: "sorted (map k (list_sort ?lt (rev xs))) \<and>
             filter (\<lambda>x. k x = v) (list_sort ?lt (rev xs)) = filter (\<lambda>x. k x = v) (rev xs)"
    by (rule list_sort_sorted_stable [OF cmp_rev])
  show "sorted (map k (sorted_builtin lt key False xs))"
    using fwd by (simp add: sorted_builtin_def)
  have "sorted_wrt (\<lambda>a b. k a \<le> k b) (list_sort ?lt (rev xs))"
    using bwd by (simp only: sorted_map)
  then have "sorted_wrt (\<lambda>a b. k b \<le> k a) (rev (list_sort ?lt (rev xs)))"
    by (simp only: sorted_wrt_rev)
  then show "sorted_wrt (\<lambda>a b. k b \<le> k a) (sorted_builtin lt key True xs)"
    by (simp add: sorted_builtin_def)
  have "filter (\<lambda>x. k x = v) (rev (list_sort ?lt (rev xs)))
        = rev (filter (\<lambda>x. k x = v) (list_sort ?lt (rev xs)))"
    by (simp only: rev_filter)
  also have "\<dots> = rev (filter (\<lambda>x. k x = v) (rev xs))"
    using bwd by simp
  also have "\<dots> = filter (\<lambda>x. k x = v) xs"
    by (simp only: rev_filter rev_rev_ident)
  finally show "filter (\<lambda>x. k x = v) (sorted_builtin lt key reverse xs)
                = filter (\<lambda>x. k x = v) xs"
    using fwd by (simp add: sorted_builtin_def)
qed

lemma float_lt_rank:
  "a \<noteq> NaN \<Longrightarrow> b \<noteq> NaN \<Longrightarrow> float_lt a b = (float_rank a < float_rank b)"
  by (cases a; cases b) simp_all

lemma float_le_rank:
  "a \<noteq> NaN \<Longrightarrow> b \<noteq> NaN \<Longrightarrow> float_le a b = (float_rank a \<le> float_rank b)"
  by (cases a; cases b) simp_all

lemma float_rank_eq: "float_rank a = float_rank b \<longleftrightarrow> a = b"
  by (cases a; cases b) simp_all

text \<open>
  Claim C4, amended.  For every list of trial results none of whose metric scores is NaN,
  the sorted results have non-decreasing metric scores when the strategy's goal is
  \<^verbatim>\<open>MINIMIZE\<close> and non-increasing metric scores when it is \<^verbatim>\<open>MAXIMIZE\<close>; in both
  directions the results with any given score keep their relative order (the sort is
  stable), and the sorted list is a rearrangement of the given one.  Infinite scores are
  allowed.
\<close>

theorem sort_hyperopt_results_ranked:
  assumes "\<forall>r \<in> set rs. metric_score r \<noteq> NaN"
  shows "(goal s = MINIMIZE \<longrightarrow>
            sorted_wrt float_le (map metric_score (sort_hyperopt_results s rs))) \<and>
         (goal s = MAXIMIZE \<longrightarrow>
            sorted_wrt (\<lambda>a b. float_le b a) (map metric_score (sort_hyperopt_results s rs))) \<and>
         (\<forall>v. filter (\<lambda>r. metric_score r = v) (sort_hyperopt_results s rs)
              = filter (\<lambda>r. metric_score r = v) rs) \<and>
         mset (sort_hyperopt_results s rs) = mset rs"
proof -
  define k where "k = (\<lambda>r :: ('a, 'b) TrialResult. float_rank (metric_score r))"
  define out where "out = sort_hyperopt_results s rs"
  have cmp: "\<forall>x \<in> set rs. \<forall>y \<in> set rs. float_lt (metric_score x) (metric_score y) = (k x < k y)"
    using assms by (simp add: k_def float_lt_rank)
  note builtin = sorted_builtin_sorted_stable
    [where lt = float_lt and key = metric_score and k = k and xs = rs, OF cmp]
  have m: "mset out = mset rs"
    by (simp add: out_def sort_hyperopt_results_def mset_sorted_builtin)
  then have "set out = set rs" by (rule mset_eq_setD)
  then have finite_scores: "\<forall>r \<in> set out. metric_score r \<noteq> NaN"
    using assms by simp
  have a: "goal s = MINIMIZE \<longrightarrow> sorted_wrt float_le (map metric_score out)"
  proof
    assume "goal s = MINIMIZE"
    then have "sorted (map k out)"
      using builtin(1)
      by (simp add: out_def sort_hyperopt_results_def)
    then have "sorted_wrt (\<lambda>x y. k x \<le> k y) out"
      by (simp only: sorted_map)
    then have "sorted_wrt (\<lambda>x y. float_le (metric_score x) (metric_score y)) out"
      by (rule sorted_wrt_mono_rel [rotated]) (use finite_scores in \<open>simp add: k_def float_le_rank\<close>)
    then show "sorted_wrt float_le (map metric_score out)"
      by (simp only: sorted_wrt_map)
  qed
  have d: "goal s = MAXIMIZE \<longrightarrow> sorted_wrt (\<lambda>a b. float_le b a) (map metric_score out)"
  proof
    assume "goal s = MAXIMIZE"
    then have "sorted_wrt (\<lambda>x y. k y \<le> k x) out"
      using builtin(2)
      by (simp add: out_def sort_hyperopt_results_def)
    then have "sorted_wrt (\<lambda>x y. float_le (metric_score y) (metric_score x)) out"
      by (rule sorted_wrt_mono_rel [rotated]) (use finite_scores in \<open>simp add: k_def float_le_rank\<close>)
    then show "sorted_wrt (\<lambda>a b. float_le b a) (map metric_score out)"
      by (simp only: sorted_wrt_map)
  qed
  have st: "\<forall>v. filter (\<lambda>r. metric_score r = v) out = filter (\<lambda>r. metric_score r = v) rs"
  proof
    fix v
    have "filter (\<lambda>r. k r = float_rank v) out = filter (\<lambda>r. k r = float_rank v) rs"
      unfolding out_def sort_hyperopt_results_def
      by (rule builtin(3))
    then show "filter (\<lambda>r. metric_score r = v) out = filter (\<lambda>r. metric_score r = v) rs"
      by (simp only: k_def float_rank_eq)
  qed
  show ?thesis using a d st m unfolding out_def by (intro conjI)
qed

theorem sort_hyperopt_results_ranked_witness:
  "list_all (\<lambda>r. metric_score r \<noteq> NaN)
     [\<lparr>trial_parameters = [(''a'', 1 :: int)], metric_score = Num 2, training_stats = (), trial_eval_stats = []\<rparr>,
      \<lparr>trial_parameters = [(''a'', 2)], metric_score = NegInf, training_stats = (), trial_eval_stats = []\<rparr>,
      \<lparr>trial_parameters = [(''a'', 3)], metric_score = Num 2, training_stats = (), trial_eval_stats = []\<rparr>] \<and>
   goal (RandomStrategy MAXIMIZE [] 0 :: (int, unit) HyperoptStrategy) = MAXIMIZE \<and>
   sort_hyperopt_results (RandomStrategy MAXIMIZE [] 0 :: (int, unit) HyperoptStrategy)
     [\<lparr>trial_parameters = [(''a'', 1)], metric_score = Num 2, training_stats = (), trial_eval_stats = []\<rparr>,
      \<lparr>trial_parameters = [(''a'', 2)], metric_score = NegInf, training_stats = (), trial_eval_stats = []\<rparr>,
      \<lparr>trial_parameters = [(''a'', 3)], metric_score = Num 2, training_stats = (), trial_eval_stats = []\<rparr>]
   = [\<lparr>trial_parameters = [(''a'', 1)], metric_score = Num 2, training_stats = (), trial_eval_stats = []\<rparr>,
      \<lparr>trial_parameters = [(''a'', 3)], metric_score = Num 2, training_stats = (), trial_eval_stats = []\<rparr>,
      \<lparr>trial_parameters = [(''a'', 2)], metric_score = NegInf, training_stats = (), trial_eval_stats = []\<rparr>] \<and>
   goal (RandomStrategy MINIMIZE [] 0 :: (int, unit) HyperoptStrategy) = MINIMIZE \<and>
   sort_hyperopt_results (RandomStrategy MINIMIZE [] 0 :: (int, unit) HyperoptStrategy)
     [\<lparr>trial_parameters = [(''a'', 1)], metric_score = Num 2, training_stats = (), trial_eval_stats = []\<rparr>,
      \<lparr>trial_parameters = [(''a'', 2)], metric_score = NegInf, training_stats = (), trial_eval_stats = []\<rparr>,
      \<lparr>trial_parameters = [(''a'', 3)], metric_score = Num 2, training_stats = (), trial_eval_stats = []\<rparr>]
   = [\<lparr>trial_parameters = [(''a'', 2)], metric_score = NegInf, training_stats = (), trial_eval_stats = []\<rparr>,
      \<lparr>trial_parameters = [(''a'', 1)], metric_score = Num 2, training_stats = (), trial_eval_stats = []\<rparr>,
      \<lparr>trial_parameters = [(''a'', 3)], metric_score = Num 2, training_stats = (), trial_eval_stats = []\<rparr>]"
  using sort_hyperopt_results_ranked
    [of "[\<lparr>trial_parameters = [(''a'', 1 :: int)], metric_score = Num 2, training_stats = (), trial_eval_stats = []\<rparr>,
          \<lparr>trial_parameters = [(''a'', 2)], metric_score = NegInf, training_stats = (), trial_eval_stats = []\<rparr>,
          \<lparr>trial_parameters = [(''a'', 3)], metric_score = Num 2, training_stats = (), trial_eval_stats = []\<rparr>]"
        "RandomStrategy MAXIMIZE [] 0 :: (int, unit) HyperoptStrategy"]
    sort_hyperopt_results_ranked
    [of "[\<lparr>trial_parameters = [(''a'', 1 :: int)], metric_score = Num 2, training_stats = (), trial_eval_stats = []\<rparr>,
          \<lparr>trial_parameters = [(''a'', 2)], metric_score = NegInf, training_stats = (), trial_eval_stats = []\<rparr>,
          \<lparr>trial_parameters = [(''a'', 3)], metric_score = Num 2, training_stats = (), trial_eval_stats = []\<rparr>]"
        "RandomStrategy MINIMIZE [] 0 :: (int, unit) HyperoptStrategy"]
  by (simp add: sort_hyperopt_results_def sorted_builtin_def list_sort_def binary_position.simps)

text \<open>
  The claim as stated fails on a list with a NaN score (the score of a diverged trial):
  every comparison with NaN is false, so the three scores 3, NaN, 1 already form one
  non-descending run for the sort, which returns the list as it is, 3 before 1, under
  either goal.
\<close>

theorem sort_hyperopt_results_nan_unranked:
  "sort_hyperopt_results (RandomStrategy MINIMIZE [] 0 :: (int, unit) HyperoptStrategy)
     [\<lparr>trial_parameters = [(''a'', 1 :: int)], metric_score = Num 3, training_stats = (), trial_eval_stats = []\<rparr>,
      \<lparr>trial_parameters = [(''a'', 2)], metric_score = NaN, training_stats = (), trial_eval_stats = []\<rparr>,
      \<lparr>trial_parameters = [(''a'', 3)], metric_score = Num 1, training_stats = (), trial_eval_stats = []\<rparr>]
   = [\<lparr>trial_parameters = [(''a'', 1)], metric_score = Num 3, training_stats = (), trial_eval_stats = []\<rparr>,
      \<lparr>trial_parameters = [(''a'', 2)], metric_score = NaN, training_stats = (), trial_eval_stats = []\<rparr>,
      \<lparr>trial_parameters = [(''a'', 3)], metric_score = Num 1, training_stats = (), trial_eval_stats = []\<rparr>] \<and>
   \<not> sorted_wrt float_le (map metric_score
     (sort_hyperopt_results (RandomStrategy MINIMIZE [] 0 :: (int, unit) HyperoptStrategy)
       [\<lparr>trial_parameters = [(''a'', 1 :: int)], metric_score = Num 3, training_stats = (), trial_eval_stats = []\<rparr>,
        \<lparr>trial_parameters = [(''a'', 2)], metric_score = NaN, training_stats = (), trial_eval_stats = []\<rparr>,
        \<lparr>trial_parameters = [(''a'', 3)], metric_score = Num 1, training_stats = (), trial_eval_stats = []\<rparr>])) \<and>
   sort_hyperopt_results (RandomStrategy MAXIMIZE [] 0 :: (int, unit) HyperoptStrategy)
     [\<lparr>trial_parameters = [(''a'', 1 :: int)], metric_score = Num 1, training_stats = (), trial_eval_stats = []\<rparr>,
      \<lparr>trial_parameters = [(''a'', 2)], metric_score = NaN, training_stats = (), trial_eval_stats = []\<rparr>,
      \<lparr>trial_parameters = [(''a'', 3)], metric_score = Num 3, training_stats = (), trial_eval_stats = []\<rparr>]
   = [\<lparr>trial_parameters = [(''a'', 1)], metric_score = Num 1, training_stats = (), trial_eval_stats = []\<rparr>,
      \<lparr>trial_parameters = [(''a'', 2)], metric_score = NaN, training_stats = (), trial_eval_stats = []\<rparr>,
      \<lparr>trial_parameters = [(''a'', 3)], metric_score = Num 3, training_stats = (), trial_eval_stats = []\<rparr>] \<and>
   \<not> float_le (Num 3) (Num 1)"
  by (simp add: sort_hyperopt_results_def sorted_builtin_def list_sort_def binary_position.simps)

subsection \<open>Free device memory\<close>

text \<open>
  Claim C9 at a failing command.  The claim says that the failure of the
  device-management command reaches the caller as the underlying error.  In the
  source the handler catches the error and only prints it, and the \<^verbatim>\<open>return\<close> statement
  after the handler reads \<^verbatim>\<open>memory_free_values\<close>, which is assigned only when the \<^verbatim>\<open>try\<close>
  block succeeds.  With the tool missing (\<^verbatim>\<open>FileNotFoundError\<close>) the call therefore
  prints that error and raises \<^verbatim>\<open>UnboundLocalError\<close>: the underlying error is not what
  the caller receives.
\<close>

theorem get_available_gpu_memory_tool_missing:
  "get_available_gpu_memory (\<lambda>s. Inl ValueError) (Inl FileNotFoundError)
     = ([FileNotFoundError], Inl UnboundLocalError) \<and>
   snd (get_available_gpu_memory (\<lambda>s. Inl ValueError) (Inl FileNotFoundError))
     \<noteq> Inl FileNotFoundError"
  by (simp add: get_available_gpu_memory_def)

text \<open>The same holds for every exception of the command.\<close>

lemma get_available_gpu_memory_failure:
  "get_available_gpu_memory to_int (Inl e) = ([e], Inl UnboundLocalError)"
  by (simp add: get_available_gpu_memory_def)

subsection \<open>The integer grid\<close>














subsection \<open>The grid strategy\<close>

lemma itertools_product_eq: "itertools_product xss = product_lists xss"
  by (induction xss) simp_all

lemma length_itertools_product:
  "length (itertools_product xss) = prod_list (map length xss)"
  by (induction xss) (simp_all add: length_concat comp_def sum_list_triv)

lemma create_search_space_ok:
  assumes "\<forall>hp \<in> snd ` set parameters. \<exists>grid. grid_function hp = Inr grid"
  shows "\<exists>search_space. create_search_space grid_function parameters = Inr search_space \<and>
           list_all2 (\<lambda>p q. fst q = fst p \<and> grid_function (snd p) = Inr (snd q))
             parameters search_space"
  using assms
proof (induction parameters)
  case Nil
  then show ?case by simp
next
  case (Cons p ps)
  obtain n hp where p: "p = (n, hp)" by (cases p)
  obtain grid where g: "grid_function hp = Inr grid" using Cons.prems p by auto
  obtain sp where sp: "create_search_space grid_function ps = Inr sp"
    "list_all2 (\<lambda>p q. fst q = fst p \<and> grid_function (snd p) = Inr (snd q)) ps sp"
    using Cons by auto
  show ?case using p g sp by simp
qed

lemma list_all2_keys:
  "list_all2 (\<lambda>p q. fst q = fst p \<and> P p q) ps qs \<Longrightarrow> map fst qs = map fst ps"
  by (induction ps qs rule: list_all2_induct) simp_all

lemma search_space_lookup_in:
  "distinct (map fst sp) \<Longrightarrow> (n, grid) \<in> set sp \<Longrightarrow> search_space_lookup sp n = grid"
  by (simp add: search_space_lookup_def)

lemma search_space_lookup_keys:
  assumes "distinct (map fst sp)"
  shows "map (search_space_lookup sp) (map fst sp) = map snd sp"
proof -
  have "\<forall>p \<in> set sp. search_space_lookup sp (fst p) = snd p"
    using search_space_lookup_in [OF assms] by auto
  then show ?thesis by (simp add: comp_def)
qed

lemma prod_list_lookup_sorted:
  assumes "distinct (map fst sp)"
  shows "prod_list (map length (map (search_space_lookup sp) (sort (map fst sp))))
         = prod_list (map (\<lambda>(n, grid). length grid) sp)"
proof -
  let ?f = "\<lambda>n. length (search_space_lookup sp n)"
  have "prod_list (map ?f (sort (map fst sp))) = prod_mset (mset (map ?f (sort (map fst sp))))"
    by (simp only: prod_mset_prod_list)
  also have "mset (map ?f (sort (map fst sp))) = mset (map ?f (map fst sp))"
    by (metis mset_map mset_sort)
  also have "prod_mset (mset (map ?f (map fst sp))) = prod_list (map ?f (map fst sp))"
    by (simp only: prod_mset_prod_list)
  also have "map ?f (map fst sp) = map length (map (search_space_lookup sp) (map fst sp))"
    by simp
  also have "\<dots> = map length (map snd sp)"
    by (simp only: search_space_lookup_keys [OF assms])
  also have "\<dots> = map (\<lambda>(n, grid). length grid) sp"
    by (simp add: case_prod_beta)
  finally show ?thesis by (simp add: comp_def)
qed

lemma length_get_grids:
  assumes "distinct (map fst sp)"
  shows "length (get_grids sp) = prod_list (map (\<lambda>(n, grid). length grid) sp)"
  using prod_list_lookup_sorted [OF assms]
  by (simp add: get_grids_def Let_def length_itertools_product)

lemma get_grids_member:
  assumes "distinct (map fst sp)" "c \<in> set (get_grids sp)"
  shows "map fst c = sort (map fst sp) \<and>
         (\<forall>(n, v) \<in> set c. \<exists>grid. (n, grid) \<in> set sp \<and> v \<in> set grid)"
proof -
  let ?names = "sort (map fst sp)"
  let ?grids = "map (search_space_lookup sp) ?names"
  obtain prod where prod: "prod \<in> set (product_lists ?grids)" and c: "c = zip ?names prod"
    using assms(2) by (auto simp: get_grids_def Let_def itertools_product_eq)
  have all2: "list_all2 (\<lambda>x ys. x \<in> set ys) prod ?grids"
    using prod by (simp add: product_lists_set)
  have len: "length prod = length ?names"
    using list_all2_lengthD [OF all2] by simp
  have keys: "map fst c = ?names" using len by (simp add: c)
  have vals: "\<exists>grid. (n, grid) \<in> set sp \<and> v \<in> set grid" if "(n, v) \<in> set c" for n v
  proof -
    have "(n, v) \<in> set (zip ?names prod)" using that by (simp only: c)
    then obtain i where i: "i < length prod" "?names ! i = n" "prod ! i = v"
      unfolding in_set_zip by auto
    have i': "i < length ?names" using i(1) len by simp
    have "prod ! i \<in> set (?grids ! i)"
      using list_all2_nthD [OF all2 i(1)] .
    also have "?grids ! i = search_space_lookup sp (?names ! i)"
      using i' by (simp only: nth_map)
    finally have v: "v \<in> set (search_space_lookup sp n)" using i by simp
    have "n \<in> set ?names" using i(2) i' nth_mem by blast
    then have "n \<in> fst ` set sp" by simp
    then obtain grid where g: "(n, grid) \<in> set sp" by auto
    then have "search_space_lookup sp n = grid"
      by (rule search_space_lookup_in [OF assms(1)])
    then show ?thesis using v g by auto
  qed
  show ?thesis using keys vals by auto
qed

lemma get_grids_tuples:
  "map (map snd) (get_grids sp)
   = itertools_product (map (search_space_lookup sp) (sort (map fst sp)))"
proof -
  let ?names = "sort (map fst sp)"
  let ?grids = "map (search_space_lookup sp) ?names"
  have "\<forall>prod \<in> set (itertools_product ?grids). map snd (zip ?names prod) = prod"
  proof
    fix prod assume "prod \<in> set (itertools_product ?grids)"
    then have "length prod = length ?grids"
      by (simp only: itertools_product_eq in_set_product_lists_length)
    then show "map snd (zip ?names prod) = prod" by simp
  qed
  then have "map (\<lambda>prod. map snd (zip ?names prod)) (itertools_product ?grids)
             = itertools_product ?grids"
    by (simp add: map_idI)
  then show ?thesis by (simp add: get_grids_def Let_def comp_def)
qed

lemma get_grids_order_independent:
  assumes "distinct (map fst sp)" "distinct (map fst sp')" "set sp' = set sp"
  shows "get_grids sp' = get_grids sp"
proof -
  have m: "map_of sp' = map_of sp"
    using assms by (simp add: map_of_inject_set)
  have "set (map fst sp') = set (map fst sp)" using assms(3) by simp
  then have "mset (map fst sp') = mset (map fst sp)"
    using set_eq_iff_mset_eq_distinct [OF assms(2) assms(1)] by blast
  then have s: "sort (map fst sp') = sort (map fst sp)"
    by (metis properties_for_sort sorted_sort mset_sort)
  have l: "search_space_lookup sp' = search_space_lookup sp"
    by (rule ext) (simp add: search_space_lookup_def m)
  show ?thesis by (simp add: get_grids_def s l)
qed

lemma samples_until_exhaustion_grid:
  "i + k \<le> length samples \<Longrightarrow>
   samples_until_exhaustion lib k (GridStrategy g sp samples i)
   = (take k (drop i samples), GridStrategy g sp samples (i + k))"
proof (induction k arbitrary: i)
  case 0
  then show ?case by simp
next
  case (Suc k)
  then have i: "i < length samples" and r: "Suc i + k \<le> length samples" by simp_all
  have d: "drop i samples = samples ! i # drop (Suc i) samples"
    using i by (simp add: Cons_nth_drop_Suc)
  show ?case using i Suc.IH [OF r] by (simp add: d)
qed


text \<open>
  Claim C5.  For every parameter set (a dictionary: distinct names) whose grid functions
  all return, the grid strategy is constructed and: its search space holds the grid of
  every parameter; the number of samples is the product of the grid lengths; every
  sample has exactly the parameter names, in ascending order, each with a value of
  that parameter's grid; the samples are the cross-product of the grids taken in the
  order of the sorted names, the last name varying fastest, and they do not depend on
  the order of the dictionary; calling \<^verbatim>\<open>sample\<close> as many times as there are samples
  returns them all in order and leaves the strategy finished, and the next call fails
  with the exhaustion error (\<^verbatim>\<open>IndexError\<close>).
\<close>

theorem GridStrategy_enumerates_cross_product:
  assumes "distinct (map fst parameters)"
    and "\<forall>hp \<in> snd ` set parameters. \<exists>grid. grid_function hp = Inr grid"
  shows "\<exists>search_space samples.
           (GridStrategy_init grid_function g parameters :: error + ('v, 'o) HyperoptStrategy)
             = Inr (GridStrategy g search_space samples 0) \<and>
           list_all2 (\<lambda>p q. fst q = fst p \<and> grid_function (snd p) = Inr (snd q))
             parameters search_space \<and>
           length samples = prod_list (map (\<lambda>(n, grid). length grid) search_space) \<and>
           (\<forall>c \<in> set samples.
              map fst c = sort (map fst parameters) \<and>
              (\<forall>(n, v) \<in> set c. \<exists>grid. (n, grid) \<in> set search_space \<and> v \<in> set grid)) \<and>
           map (map snd) samples
             = itertools_product
                 (map (search_space_lookup search_space) (sort (map fst parameters))) \<and>
           (\<forall>sp'. distinct (map fst sp') \<and> set sp' = set search_space
                   \<longrightarrow> get_grids sp' = samples) \<and>
           samples_until_exhaustion lib (length samples)
               (GridStrategy g search_space samples 0 :: ('v, 'o) HyperoptStrategy)
             = (samples, GridStrategy g search_space samples (length samples)) \<and>
           finished (GridStrategy g search_space samples (length samples)
                       :: ('v, 'o) HyperoptStrategy) \<and>
           sample lib (GridStrategy g search_space samples (length samples))
             = Inl IndexError"
proof -
  obtain sp where sp: "create_search_space grid_function parameters = Inr sp"
    and all2: "list_all2 (\<lambda>p q. fst q = fst p \<and> grid_function (snd p) = Inr (snd q))
                 parameters sp"
    using create_search_space_ok [OF assms(2)] by blast
  have keys: "map fst sp = map fst parameters" using all2 by (rule list_all2_keys)
  have dist: "distinct (map fst sp)" using assms(1) by (simp only: keys)
  let ?samples = "get_grids sp"
  have init: "(GridStrategy_init grid_function g parameters :: error + ('v, 'o) HyperoptStrategy)
                = Inr (GridStrategy g sp ?samples 0)"
    by (simp add: GridStrategy_init_def sp)
  have len: "length ?samples = prod_list (map (\<lambda>(n, grid). length grid) sp)"
    by (rule length_get_grids [OF dist])
  have valid: "\<forall>c \<in> set ?samples.
              map fst c = sort (map fst parameters) \<and>
              (\<forall>(n, v) \<in> set c. \<exists>grid. (n, grid) \<in> set sp \<and> v \<in> set grid)"
    using get_grids_member [OF dist] by (simp only: keys) blast
  have tuples: "map (map snd) ?samples
             = itertools_product (map (search_space_lookup sp) (sort (map fst parameters)))"
    using get_grids_tuples [of sp] by (simp only: keys)
  have indep: "\<forall>sp'. distinct (map fst sp') \<and> set sp' = set sp \<longrightarrow> get_grids sp' = ?samples"
    using get_grids_order_independent [OF dist] by blast
  have run: "samples_until_exhaustion lib (length ?samples)
               (GridStrategy g sp ?samples 0 :: ('v, 'o) HyperoptStrategy)
             = (?samples, GridStrategy g sp ?samples (length ?samples))"
    using samples_until_exhaustion_grid [of 0 "length ?samples" ?samples lib g sp] by simp
  have fin: "finished (GridStrategy g sp ?samples (length ?samples) :: ('v, 'o) HyperoptStrategy)"
    by simp
  have nxt: "sample lib (GridStrategy g sp ?samples (length ?samples)) = Inl IndexError"
    by simp
  show ?thesis
    using init all2 len valid tuples indep run fin nxt by blast
qed

theorem GridStrategy_enumerates_cross_product_witness:
  "distinct (map fst [(''training.batch_size'', ((32 :: int, 33 :: int), None :: int option)),
                      (''combiner.num_fc_layers'', ((0, 5), Some 3))]) \<and>
   (GridStrategy_init (\<lambda>(r, st). int_grid_function Floor r st) MINIMIZE
      [(''training.batch_size'', ((32, 33), None)),
       (''combiner.num_fc_layers'', ((0, 5), Some 3))] :: error + (int, unit) HyperoptStrategy)
   = Inr (GridStrategy MINIMIZE
            [(''training.batch_size'', [32, 33]), (''combiner.num_fc_layers'', [0, 2, 5])]
            [[(''combiner.num_fc_layers'', 0), (''training.batch_size'', 32)],
             [(''combiner.num_fc_layers'', 0), (''training.batch_size'', 33)],
             [(''combiner.num_fc_layers'', 2), (''training.batch_size'', 32)],
             [(''combiner.num_fc_layers'', 2), (''training.batch_size'', 33)],
             [(''combiner.num_fc_layers'', 5), (''training.batch_size'', 32)],
             [(''combiner.num_fc_layers'', 5), (''training.batch_size'', 33)]]
            0)"
  using GridStrategy_enumerates_cross_product
    [of "[(''training.batch_size'', ((32 :: int, 33 :: int), None :: int option)),
          (''combiner.num_fc_layers'', ((0, 5), Some 3))]"
        "\<lambda>(r, st). int_grid_function Floor r st" MINIMIZE
        "\<lparr>suggest = (\<lambda>opt :: unit. ([], opt)), observe = (\<lambda>opt p score. opt)\<rparr>"]
  by (simp add: GridStrategy_init_def get_grids_def search_space_lookup_def
        int_grid_function_def linspace_def upt_conv_Cons)

subsection \<open>Device memory shared among workers\<close>







text \<open>With two devices, four workers and the default \<open>epsilon\<close> of 0.01 the computed
  limit is never zero for an integer amount of free memory, so the division that gives
  \<open>process_per_gpu\<close> is defined.\<close>

lemma two_devices_four_workers_limit_nonzero:
  "(of_int 2 / of_int 4 - 1 / 100) * (of_int a :: real) \<noteq> 100 * of_int 4"
proof
  assume "(of_int 2 / of_int 4 - 1 / 100) * (of_int a :: real) = 100 * of_int 4"
  then have "(of_int (49 * a) :: real) = of_int 40000" by simp
  then have "49 * a = 40000" by (simp only: of_int_eq_iff)
  then show False by presburger
qed



subsection \<open>Parameter substitution\<close>













subsection \<open>The shared queue of device slots\<close>

lemma held_slots_Cons: "held_slots (c # calls) = held_slots [c] @ held_slots calls"
  by (cases c) simp_all

lemma held_slots_update:
  "i < length calls \<Longrightarrow>
   mset (held_slots (calls[i := c])) + mset (held_slots [calls ! i])
   = mset (held_slots calls) + mset (held_slots [c])"
proof (induction calls arbitrary: i)
  case Nil
  then show ?case by simp
next
  case (Cons a calls)
  show ?case
  proof (cases i)
    case 0
    then show ?thesis
      using held_slots_Cons [of a calls] held_slots_Cons [of c calls] by simp
  next
    case (Suc j)
    then have "j < length calls" using Cons.prems by simp
    then have "mset (held_slots (calls[j := c])) + mset (held_slots [calls ! j])
               = mset (held_slots calls) + mset (held_slots [c])"
      by (rule Cons.IH)
    then show ?thesis
      using Suc held_slots_Cons [of a calls] held_slots_Cons [of a "calls[j := c]"] by simp
  qed
qed

lemma worker_step_keeps_slots:
  "worker_step train output_feature metric queue c = (queue', c') \<Longrightarrow>
   mset queue' + mset (held_slots [c']) = mset queue + mset (held_slots [c])"
  by (cases c; cases queue) auto

lemma pool_step_keeps_slots:
  "mset (fst (pool_step train output_feature metric st i))
     + mset (held_slots (snd (pool_step train output_feature metric st i)))
   = mset (fst st) + mset (held_slots (snd st))"
proof (cases "i < length (snd st)")
  case True
  obtain queue' c' where w: "worker_step train output_feature metric (fst st) (snd st ! i)
      = (queue', c')"
    by (cases "worker_step train output_feature metric (fst st) (snd st ! i)")
  have p: "pool_step train output_feature metric st i = (queue', (snd st)[i := c'])"
    using True w by (simp add: pool_step_def)
  have a: "mset queue' + mset (held_slots [c']) = mset (fst st) + mset (held_slots [snd st ! i])"
    by (rule worker_step_keeps_slots [OF w])
  have b: "mset (held_slots ((snd st)[i := c'])) + mset (held_slots [snd st ! i])
           = mset (held_slots (snd st)) + mset (held_slots [c'])"
    by (rule held_slots_update [OF True])
  have "mset queue' + mset (held_slots ((snd st)[i := c'])) + mset (held_slots [snd st ! i])
        = mset queue' + (mset (held_slots (snd st)) + mset (held_slots [c']))"
    using b by (simp add: add.assoc)
  also have "\<dots> = mset (fst st) + mset (held_slots [snd st ! i]) + mset (held_slots (snd st))"
    using a by (simp add: add.assoc add.commute)
  finally have "mset queue' + mset (held_slots ((snd st)[i := c']))
                = mset (fst st) + mset (held_slots (snd st))"
    by simp
  then show ?thesis by (simp add: p)
next
  case False
  then show ?thesis by (simp add: pool_step_def)
qed

lemma run_schedule_keeps_slots:
  "mset (fst (run_schedule train output_feature metric schedule st))
     + mset (held_slots (snd (run_schedule train output_feature metric schedule st)))
   = mset (fst st) + mset (held_slots (snd st))"
proof (induction schedule arbitrary: st)
  case Nil
  then show ?case by simp
next
  case (Cons i schedule)
  show ?case
    using Cons.IH [of "pool_step train output_feature metric st i"]
      pool_step_keeps_slots [of train output_feature metric st i]
    by simp
qed

lemma held_slots_all_exited: "list_all has_exited calls \<Longrightarrow> held_slots calls = []"
proof (induction calls)
  case Nil
  then show ?case by simp
next
  case (Cons c calls)
  then show ?case by (cases c) simp_all
qed

lemma held_slots_all_waiting: "held_slots (map Waiting trials) = []"
  by (induction trials) simp_all

text \<open>
  Claim C3.  A worker call that holds a slot puts it back at the end of the queue when
  it leaves the function, with the result of the trial or with the exception the trial
  raised.  Consequently, for every interleaving of the worker calls of a pool: once
  all calls have left the function, the queue holds exactly the slots it held before
  the trials started (as a multiset), so in particular the same number of slots.
\<close>

theorem gpu_slot_returned_on_every_exit:
  "(\<forall>gpu_id_meta kwargs queue.
      worker_step train output_feature metric queue (Holding gpu_id_meta kwargs)
        = (queue @ [gpu_id_meta],
           Exited (gpu_trial train output_feature metric gpu_id_meta kwargs))) \<and>
   (\<forall>queue' calls'.
      run_schedule train output_feature metric schedule (queue, map Waiting trials)
        = (queue', calls') \<and> list_all has_exited calls'
      \<longrightarrow> mset queue' = mset queue \<and> length queue' = length queue)"
proof -
  have step: "\<forall>gpu_id_meta kwargs queue.
      worker_step train output_feature metric queue (Holding gpu_id_meta kwargs)
        = (queue @ [gpu_id_meta],
           Exited (gpu_trial train output_feature metric gpu_id_meta kwargs))"
    by simp
  have pool: "mset queue' = mset queue \<and> length queue' = length queue"
    if run: "run_schedule train output_feature metric schedule (queue, map Waiting trials)
        = (queue', calls')" and left: "list_all has_exited calls'" for queue' calls'
  proof -
    have "mset queue' + mset (held_slots calls')
          = mset queue + mset (held_slots (map Waiting trials :: 'a worker_call list))"
      using run_schedule_keeps_slots
        [of train output_feature metric schedule "(queue, map Waiting trials)"] run
      by simp
    then have m: "mset queue' = mset queue"
      using held_slots_all_exited [OF left] by (simp add: held_slots_all_waiting)
    then show ?thesis using mset_eq_length [of queue' queue] by simp
  qed
  show ?thesis using step pool by blast
qed


text \<open>The calls do leave the function: with a slot in the queue, running the calls one
  after the other completes all of them.\<close>

lemma sequential_schedule_Suc:
  "concat (map (\<lambda>i. [i, i]) [n..<n + Suc k])
   = n # n # concat (map (\<lambda>i. [i, i]) [Suc n..<Suc n + k])"
  by (subst upt_conv_Cons) simp_all

lemma sequential_schedule_completes:
  assumes "queue \<noteq> []" "list_all has_exited past"
  shows "list_all has_exited
           (snd (run_schedule train output_feature metric
                   (concat (map (\<lambda>i. [i, i]) [length past..<length past + length rest]))
                   (queue, past @ map Waiting rest)))"
  using assms
proof (induction rest arbitrary: queue past)
  case Nil
  then show ?case by simp
next
  case (Cons r rest)
  obtain s q0 where q: "queue = s # q0" using Cons.prems(1) by (cases queue) auto
  let ?n = "length past"
  let ?c = "Exited (gpu_trial train output_feature metric s r) :: 'a worker_call"
  let ?S = "concat (map (\<lambda>i. [i, i]) [Suc ?n..<Suc ?n + length rest])"
  have sched: "concat (map (\<lambda>i. [i, i]) [?n..<?n + length (r # rest)]) = ?n # ?n # ?S"
    using sequential_schedule_Suc [of ?n "length rest"] by (simp only: length_Cons)
  have s1: "pool_step train output_feature metric (queue, past @ map Waiting (r # rest)) ?n
            = (q0, past @ Holding s r # map Waiting rest)"
    by (simp add: pool_step_def q nth_append list_update_append)
  have s2: "pool_step train output_feature metric (q0, past @ Holding s r # map Waiting rest) ?n
            = (q0 @ [s], (past @ [?c]) @ map Waiting rest)"
    by (simp add: pool_step_def nth_append list_update_append)
  have run: "run_schedule train output_feature metric (?n # ?n # ?S)
               (queue, past @ map Waiting (r # rest))
             = run_schedule train output_feature metric ?S
                 (q0 @ [s], (past @ [?c]) @ map Waiting rest)"
    by (simp only: run_schedule.simps s1 s2)
  have d: "list_all has_exited (past @ [?c])" using Cons.prems(2) by simp
  have len: "length (past @ [?c]) = Suc ?n" by simp
  have "list_all has_exited
           (snd (run_schedule train output_feature metric
                   (concat (map (\<lambda>i. [i, i])
                      [length (past @ [?c])..<length (past @ [?c]) + length rest]))
                   (q0 @ [s], (past @ [?c]) @ map Waiting rest)))"
    by (rule Cons.IH [OF _ d]) simp
  then have "list_all has_exited
           (snd (run_schedule train output_feature metric ?S
                   (q0 @ [s], (past @ [?c]) @ map Waiting rest)))"
    by (simp only: len)
  then show ?case by (simp only: sched run)
qed

theorem gpu_slot_returned_on_every_exit_witness:
  "run_schedule
     (\<lambda>m gpus gpu_memory_limit.
                if m = JInt 64 then Inl RuntimeError
                else Inr ((), [(''combined'', [(''loss'', Num 1)])]))
     ''combined'' ''loss'' [0, 1, 2, 1, 2, 0, 2]
     ([(''0'', Some 4990), (''1'', Some 3520)],
      map Waiting
        [\<lparr>dict_parameters = [(''training.batch_size'', JInt 32)],
          dict_model_definition = JInt 32,
          dict_gpus = Some ''0,1'', dict_gpu_memory_limit = None\<rparr>,
         \<lparr>dict_parameters = [(''training.batch_size'', JInt 64)],
          dict_model_definition = JInt 64,
          dict_gpus = Some ''0,1'', dict_gpu_memory_limit = None\<rparr>,
         \<lparr>dict_parameters = [(''training.batch_size'', JInt 128)],
          dict_model_definition = JInt 128,
          dict_gpus = Some ''0,1'', dict_gpu_memory_limit = None\<rparr>])
   = ([(''0'', Some 4990), (''1'', Some 3520)],
      [Exited (Inr \<lparr>trial_parameters = [(''training.batch_size'', JInt 32)], metric_score = Num 1,
                    training_stats = (), trial_eval_stats = [(''combined'', [(''loss'', Num 1)])]\<rparr>),
       Exited (Inl RuntimeError),
       Exited (Inr \<lparr>trial_parameters = [(''training.batch_size'', JInt 128)], metric_score = Num 1,
                    training_stats = (), trial_eval_stats = [(''combined'', [(''loss'', Num 1)])]\<rparr>)]) \<and>
   list_all has_exited
      [Exited (Inr \<lparr>trial_parameters = [(''training.batch_size'', JInt 32)], metric_score = Num 1,
                    training_stats = (), trial_eval_stats = [(''combined'', [(''loss'', Num 1)])]\<rparr>),
       Exited (Inl RuntimeError),
       Exited (Inr \<lparr>trial_parameters = [(''training.batch_size'', JInt 128)], metric_score = Num 1,
                    training_stats = (), trial_eval_stats = [(''combined'', [(''loss'', Num 1)])]\<rparr>)] \<and>
   length [(''0'', Some (4990 :: real)), (''1'', Some 3520)] = 2"
  using gpu_slot_returned_on_every_exit
    [of "\<lambda>m gpus gpu_memory_limit.
                if m = JInt 64 then Inl RuntimeError
                else Inr ((), [(''combined'', [(''loss'', Num 1)])])"
        "''combined''" "''loss''" "[0, 1, 2, 1, 2, 0, 2]"
        "[(''0'', Some 4990), (''1'', Some 3520)]"
        "[\<lparr>dict_parameters = [(''training.batch_size'', JInt 32)],
          dict_model_definition = JInt 32,
          dict_gpus = Some ''0,1'', dict_gpu_memory_limit = None\<rparr>,
         \<lparr>dict_parameters = [(''training.batch_size'', JInt 64)],
          dict_model_definition = JInt 64,
          dict_gpus = Some ''0,1'', dict_gpu_memory_limit = None\<rparr>,
         \<lparr>dict_parameters = [(''training.batch_size'', JInt 128)],
          dict_model_definition = JInt 128,
          dict_gpus = Some ''0,1'', dict_gpu_memory_limit = None\<rparr>]"]
  by (simp add: pool_step_def gpu_trial_def train_and_eval_model_def get_metric_score_def)

subsection \<open>Runs of the executors\<close>

text \<open>Outside a finished strategy, \<^verbatim>\<open>sample_batch()\<close> with its default batch size returns
  exactly one configuration.\<close>

lemma sample_batch_default_one:
  assumes "\<not> finished s"
  shows "\<exists>x s'. sample lib s = Inr (x, s') \<and> sample_batch lib 1 s = Inr ([x], s')"
proof -
  have "\<not> (\<exists>e. sample lib s = Inl e)" using assms sample_error_iff_finished by blast
  then obtain x s' where "sample lib s = Inr (x, s')" by (cases "sample lib s") auto
  then show ?thesis by (simp add: sample_batch_def)
qed

lemma pool_map_calls_append:
  "pool_map_calls (es @ fs) = pool_map_calls es @ pool_map_calls fs"
  by (induction es rule: pool_map_calls.induct) simp_all

lemma append_hyperopt_parameters_extends:
  "append_hyperopt_parameters ctx sampled hp = Inr hp' \<Longrightarrow>
   \<exists>new. hp' = hp @ new \<and> map dict_parameters new = sampled"
proof (induction sampled arbitrary: hp)
  case Nil
  then show ?case by simp
next
  case (Cons p sampled)
  then obtain m where m: "substitute_parameters (ctx_model_definition ctx) p = Inr m"
    by (cases "substitute_parameters (ctx_model_definition ctx) p") auto
  let ?d = "\<lparr>dict_parameters = p, dict_model_definition = m, dict_gpus = ctx_gpus ctx,
              dict_gpu_memory_limit = ctx_gpu_memory_limit ctx\<rparr>"
  have "append_hyperopt_parameters ctx sampled (hp @ [?d]) = Inr hp'"
    using Cons.prems m by simp
  from Cons.IH [OF this]
  obtain new where new: "hp' = (hp @ [?d]) @ new" "map dict_parameters new = sampled"
    by (elim exE conjE)
  have "hp' = hp @ (?d # new) \<and> map dict_parameters (?d # new) = p # sampled"
    using new by simp
  then show ?case by (rule exI)
qed


lemma parallel_loop_pool_map_calls:
  "\<exists>new. pool_map_calls (fst (ParallelExecutor_loop ctx pool_map s hp res tr))
           = pool_map_calls tr @ new \<and> chained hp new"
proof (induction ctx pool_map s hp res tr rule: ParallelExecutor_loop.induct)
  case (1 ctx pool_map s hp res tr)
  show ?case
  proof (cases "finished s")
    case True
    then show ?thesis by (subst ParallelExecutor_loop.simps) (simp del: ParallelExecutor_loop.simps)
  next
    case nf: False
    show ?thesis
    proof (cases "sample_batch (ctx_optimizer ctx) 1 s")
      case (Inl e)
      then show ?thesis using nf by (subst ParallelExecutor_loop.simps) (simp del: ParallelExecutor_loop.simps)
    next
      case (Inr r)
      obtain sampled s1 where r: "r = (sampled, s1)" by (cases r)
      show ?thesis
      proof (cases "append_hyperopt_parameters ctx sampled hp")
        case (Inl e)
        then show ?thesis using nf Inr r
          by (subst ParallelExecutor_loop.simps) (simp add: pool_map_calls_append del: ParallelExecutor_loop.simps)
      next
        case app: (Inr hp')
        from append_hyperopt_parameters_extends [OF app]
        obtain new where "hp' = hp @ new" by (elim exE conjE)
        then have pre: "take (length hp) hp' = hp" by simp
        show ?thesis
        proof (cases "pool_map hp'")
          case (Inl e)
          then show ?thesis using nf Inr r app pre
            by (subst ParallelExecutor_loop.simps) (simp add: pool_map_calls_append del: ParallelExecutor_loop.simps)
        next
          case res: (Inr batch_results)
          let ?tr' = "tr @ [SampleBatch sampled, PoolMap hp',
                        UpdateBatch (map (\<lambda>r. (trial_parameters r, metric_score r)) batch_results)]"
          let ?s2 = "update_batch (ctx_optimizer ctx) s1
                        (map (\<lambda>r. (trial_parameters r, metric_score r)) batch_results)"
          from "1.IH" [OF nf Inr r [symmetric] app res]
          obtain new' where n: "pool_map_calls (fst (ParallelExecutor_loop ctx pool_map ?s2 hp'
                (res @ batch_results) ?tr')) = pool_map_calls ?tr' @ new'" "chained hp' new'"
            by (elim exE conjE)
          have unfold: "ParallelExecutor_loop ctx pool_map s hp res tr
                = ParallelExecutor_loop ctx pool_map ?s2 hp' (res @ batch_results) ?tr'"
            using nf Inr r app res by (subst ParallelExecutor_loop.simps) (simp del: ParallelExecutor_loop.simps)
          have "pool_map_calls (fst (ParallelExecutor_loop ctx pool_map s hp res tr))
                = pool_map_calls tr @ (hp' # new')"
            using n(1) by (simp only: unfold) (simp add: pool_map_calls_append del: ParallelExecutor_loop.simps)
          moreover have "chained hp (hp' # new')" using pre n(2) by simp
          ultimately have "pool_map_calls (fst (ParallelExecutor_loop ctx pool_map s hp res tr))
                = pool_map_calls tr @ (hp' # new') \<and> chained hp (hp' # new')"
            by (rule conjI)
          then show ?thesis by (rule exI)
        qed
      qed
    qed
  qed
qed

text \<open>
  In every run of the parallel executor, every list handed to the pool begins with the
  whole list handed to the pool before: \<^verbatim>\<open>hyperopt_parameters\<close> is never emptied.
\<close>

lemma parallel_execute_pool_map_chained:
  "chained [] (pool_map_calls (fst (ParallelExecutor_execute ctx pool_map s)))"
proof -
  from parallel_loop_pool_map_calls [of ctx pool_map s "[]" "[]" "[]"]
  obtain new where n: "pool_map_calls (fst (ParallelExecutor_loop ctx pool_map s [] [] []))
      = pool_map_calls [] @ new" "chained [] new"
    by (elim exE conjE)
  show ?thesis using n by (simp add: ParallelExecutor_execute_def)
qed

lemmas example_defs = example_model_definition_def example_train_def example_context_def
  example_grid_def example_random_def example_pool_map_def example_fiber_map_def

lemmas executor_defs = sample_batch_def
  substitute_parameters_def get_parameters_dict_def substitute_features_def
  substitute_section_def train_and_eval_model_def get_metric_score_def
  sort_hyperopt_results_def sorted_builtin_def list_sort_def

text \<open>
  Claim C1 at a grid of two configurations.  The two sampled batches are "batch size
  32" and "batch size 64".  The first call of the pool's \<^verbatim>\<open>map\<close> receives the first
  configuration; the second call receives the first configuration again together with
  the second one, and the results of the run hold the trial of the first configuration
  twice.  The claim says that each call dispatches exactly the batch just sampled and
  that no configuration is dispatched again.
\<close>

theorem parallel_pool_map_redispatches:
  "sampled_batches (fst (ParallelExecutor_execute example_context example_pool_map example_grid))
     = [[[(''training.batch_size'', JInt 32)]], [[(''training.batch_size'', JInt 64)]]] \<and>
   map (map dict_parameters)
     (pool_map_calls (fst (ParallelExecutor_execute example_context example_pool_map example_grid)))
     = [[[(''training.batch_size'', JInt 32)]],
        [[(''training.batch_size'', JInt 32)], [(''training.batch_size'', JInt 64)]]] \<and>
   map (map trial_parameters)
     (case snd (ParallelExecutor_execute example_context example_pool_map example_grid) of
        Inl e \<Rightarrow> [] | Inr results \<Rightarrow> [results])
     = [[[(''training.batch_size'', JInt 32)], [(''training.batch_size'', JInt 32)],
         [(''training.batch_size'', JInt 64)]]]"
  by (simp add: ParallelExecutor_execute_def example_defs executor_defs)

text \<open>The serial and the fiber executor on two configurations: every batch, every
  dispatch and every update holds one configuration.\<close>

lemma serial_and_fiber_batches_of_one:
  "map length (sampled_batches (fst (SerialExecutor_execute example_context example_random)))
     = [1, 1] \<and>
   map (\<lambda>m. get_item m ''training'')
     (train_calls (fst (SerialExecutor_execute example_context example_random)))
     = [Inr (JDict [(''batch_size'', JInt 32)]), Inr (JDict [(''batch_size'', JInt 64)])] \<and>
   update_batches (fst (SerialExecutor_execute example_context example_random))
     = [[([(''training.batch_size'', JInt 32)], Num 1)], [([(''training.batch_size'', JInt 64)], Num 2)]] \<and>
   map length (sampled_batches
      (fst (FiberExecutor_execute example_context example_fiber_map example_random)))
     = [1, 1] \<and>
   map length (fiber_map_calls
      (fst (FiberExecutor_execute example_context example_fiber_map example_random)))
     = [1, 1] \<and>
   update_batches (fst (FiberExecutor_execute example_context example_fiber_map example_random))
     = [[([(''training.batch_size'', JInt 32)], Num 1)], [([(''training.batch_size'', JInt 64)], Num 2)]]"
  by (simp add: SerialExecutor_execute_def FiberExecutor_execute_def example_defs executor_defs)

text \<open>
  Claim C10 at two configurations, parallel executor.  Both sampled batches hold one
  configuration, as the default batch size gives.  The second call of the pool's
  \<^verbatim>\<open>map\<close> nevertheless receives two configurations, and the second \<^verbatim>\<open>update_batch\<close> is
  applied to two observations, the first trial's among them for the second time.  The
  claim says that every dispatched batch holds exactly one configuration and that the
  strategy is updated after every single trial, in every executor.
\<close>

theorem parallel_batches_grow:
  "map length (sampled_batches
      (fst (ParallelExecutor_execute example_context example_pool_map example_random)))
     = [1, 1] \<and>
   map length (pool_map_calls
      (fst (ParallelExecutor_execute example_context example_pool_map example_random)))
     = [1, 2] \<and>
   update_batches (fst (ParallelExecutor_execute example_context example_pool_map example_random))
     = [[([(''training.batch_size'', JInt 32)], Num 1)],
        [([(''training.batch_size'', JInt 32)], Num 1), ([(''training.batch_size'', JInt 64)], Num 2)]]"
  by (simp add: ParallelExecutor_execute_def example_defs executor_defs)

end
